theory Spec2Isabelle
  imports Complex_Main "HOL-Library.Word"
begin

section \<open>Numbers\<close>

text \<open>
  A JavaScript \<open>number\<close> is modelled as a \<open>real\<close>, and rounding to 53 bits is
  outside the model. Where the source can produce a value that is not a finite number
  (a division by zero, a read past the end of an array), the model says so with
  \<open>None\<close> in a \<open>real option\<close>. The range of doubles is modelled where a result
  depends on it: negative zero for the arguments of \<open>Math.atan2\<close>, underflow for the
  quotients of the tone curve evaluation, and underflow, the two infinities and \<open>NaN\<close>
  for the tone curve synthesis.
\<close>

type_synonym jsnum = "real option"

definition elemAt :: "'a list \<Rightarrow> nat \<Rightarrow> 'a option" where
  \<comment> \<open>\<open>xs[i]\<close>, and \<open>xs?.[i]\<close>: \<open>undefined\<close> past the end.\<close>
  "elemAt xs i = (if i < length xs then Some (xs ! i) else None)"

definition falsy :: "jsnum \<Rightarrow> bool" where
  \<comment> \<open>\<open>!v\<close> for a number or \<open>undefined\<close>: true for \<open>undefined\<close>, \<open>NaN\<close> and 0.\<close>
  "falsy v = (case v of None \<Rightarrow> True | Some x \<Rightarrow> x = 0)"

definition jsdiv :: "real \<Rightarrow> real \<Rightarrow> jsnum" where
  \<comment> \<open>\<open>x / y\<close>: \<open>NaN\<close> or an infinity when the divisor is 0.\<close>
  "jsdiv x y = (if y = 0 then None else Some (x / y))"

definition underflow :: "real \<Rightarrow> real" where
  \<comment> \<open>The range of doubles near 0: a product or quotient whose magnitude is at most
      \<open>2^-1075\<close>, half of the smallest positive double, is rounded to 0.\<close>
  "underflow q = (if \<bar>q\<bar> \<le> 1 / 2 ^ 1075 then 0 else q)"

definition Math_round :: "real \<Rightarrow> real" where
  \<comment> \<open>\<open>Math.round\<close>: the nearest integer, halves towards plus infinity.\<close>
  "Math_round x = of_int \<lfloor>x + 1 / 2\<rfloor>"

text \<open>
  An argument of \<open>Math.atan2\<close> is a finite double: it is given by its real value, and
  negative zero is kept apart from zero, because \<open>Math.atan2\<close> tells them apart.
\<close>

datatype fnum = Num real | NegZero

fun valueOf :: "fnum \<Rightarrow> real" where
  "valueOf (Num x) = x"
| "valueOf NegZero = 0"

fun signBit :: "fnum \<Rightarrow> bool" where
  "signBit (Num x) = (x < 0)"
| "signBit NegZero = True"

definition atan2 :: "fnum \<Rightarrow> fnum \<Rightarrow> real" where
  \<comment> \<open>\<open>Math.atan2(y, x)\<close> of the JavaScript runtime on finite arguments, with the exact
      arc tangent. For \<open>y\<close> a zero the result is 0 when \<open>x\<close> is positive or zero and
      \<open>pi\<close> when \<open>x\<close> is negative or negative zero, with the sign of \<open>y\<close>.\<close>
  "atan2 y x =
     (let yv = valueOf y; xv = valueOf x
      in if yv = 0 then (if signBit x then (if signBit y then - pi else pi) else 0)
         else if xv = 0 then (if 0 < yv then pi / 2 else - (pi / 2))
         else if 0 < xv then arctan (yv / xv)
         else if 0 < yv then arctan (yv / xv) + pi
         else arctan (yv / xv) - pi)"

section \<open>Data model (types.ts, constants.ts)\<close>

record LabColor =
  lab_l :: real
  lab_a :: real
  lab_b :: real

datatype ColorChannel = red | orange | yellow | green | aqua | blue | purple | magenta

record ColorRange =
  range_start :: real
  range_end :: real
  range_center :: real

definition COLOR_RANGES :: "ColorChannel \<Rightarrow> ColorRange" where
  "COLOR_RANGES c = (case c of
       red \<Rightarrow> \<lparr>range_start = 345, range_end = 15, range_center = 0\<rparr>
     | orange \<Rightarrow> \<lparr>range_start = 15, range_end = 45, range_center = 30\<rparr>
     | yellow \<Rightarrow> \<lparr>range_start = 45, range_end = 75, range_center = 60\<rparr>
     | green \<Rightarrow> \<lparr>range_start = 75, range_end = 165, range_center = 120\<rparr>
     | aqua \<Rightarrow> \<lparr>range_start = 165, range_end = 195, range_center = 180\<rparr>
     | blue \<Rightarrow> \<lparr>range_start = 195, range_end = 255, range_center = 225\<rparr>
     | purple \<Rightarrow> \<lparr>range_start = 255, range_end = 285, range_center = 270\<rparr>
     | magenta \<Rightarrow> \<lparr>range_start = 285, range_end = 345, range_center = 315\<rparr>)"

type_synonym Row3 = "real \<times> real \<times> real"
type_synonym Matrix3x3 = "Row3 \<times> Row3 \<times> Row3"

section \<open>Shared image utilities (image-utils.ts)\<close>

definition convertToneCurveToMatrix :: "real list list option \<Rightarrow> jsnum \<times> real \<times> real" where
  "convertToneCurveToMatrix curve =
     (case curve of
        None \<Rightarrow> (Some 1, 0, 0)
      | Some c \<Rightarrow>
          if length c < 2 then (Some 1, 0, 0)
          else
            let firstPoint = c ! 0;
                lastPoint = c ! (length c - 1)
            in if falsy (elemAt firstPoint 0) \<or> falsy (elemAt firstPoint 1) \<or>
                  falsy (elemAt lastPoint 0) \<or> falsy (elemAt lastPoint 1)
               then (Some 1, 0, 0)
               else
                 let avgSlope = jsdiv (lastPoint ! 1 - firstPoint ! 1) (lastPoint ! 0 - firstPoint ! 0)
                 in (avgSlope, 0, 0))"

definition IDENTITY_MATRIX :: Matrix3x3 where
  "IDENTITY_MATRIX = ((1, 0, 0), (0, 1, 0), (0, 0, 1))"

fun multiplyMatrices :: "Matrix3x3 \<Rightarrow> Matrix3x3 \<Rightarrow> Matrix3x3" where
  "multiplyMatrices ((a00, a01, a02), (a10, a11, a12), (a20, a21, a22))
                    ((b00, b01, b02), (b10, b11, b12), (b20, b21, b22)) =
     ((a00 * b00 + a01 * b10 + a02 * b20,
       a00 * b01 + a01 * b11 + a02 * b21,
       a00 * b02 + a01 * b12 + a02 * b22),
      (a10 * b00 + a11 * b10 + a12 * b20,
       a10 * b01 + a11 * b11 + a12 * b21,
       a10 * b02 + a11 * b12 + a12 * b22),
      (a20 * b00 + a21 * b10 + a22 * b20,
       a20 * b01 + a21 * b11 + a22 * b21,
       a20 * b02 + a21 * b12 + a22 * b22))"

section \<open>Colour analysis (color-analysis.ts)\<close>

definition hueFromLab :: "fnum \<Rightarrow> fnum \<Rightarrow> real" where
  \<comment> \<open>The hue expression of the source, \<open>(Math.atan2(lab.b, lab.a) * 180) / Math.PI + 180\<close>,
      as a function of \<open>a\<close> and \<open>b\<close>.\<close>
  "hueFromLab av bv = (atan2 bv av * 180) / pi + 180"

definition inRange :: "ColorRange \<Rightarrow> real \<Rightarrow> bool" where
  \<comment> \<open>The membership test of the pixel loop.\<close>
  "inRange rng hue =
     (if range_start rng > range_end rng
      then hue \<ge> range_start rng \<or> hue \<le> range_end rng
      else hue \<ge> range_start rng \<and> hue \<le> range_end rng)"

section \<open>LUT generation (extract-xmp-cube-core.ts)\<close>

text \<open>
  Of the \<open>ImageProperties\<close> record the model keeps the fields that the LUT generator
  reads. The three channel curves are optional properties of the interface: a key can be
  absent from the object, or present with the value \<open>undefined\<close> (\<open>Present None\<close>),
  or present with a curve.
\<close>

datatype 'a property = Absent | Present "'a option"

fun propValue :: "'a property \<Rightarrow> 'a option" where
  \<comment> \<open>Reading a property: \<open>undefined\<close> for an absent key.\<close>
  "propValue Absent = None"
| "propValue (Present v) = v"

record ImageProperties =
  exposure :: real
  contrast :: real
  redHue :: real
  redSaturation :: real
  orangeHue :: real
  orangeSaturation :: real
  yellowHue :: real
  yellowSaturation :: real
  greenHue :: real
  greenSaturation :: real
  aquaHue :: real
  aquaSaturation :: real
  blueHue :: real
  blueSaturation :: real
  purpleHue :: real
  purpleSaturation :: real
  magentaHue :: real
  magentaSaturation :: real
  toneCurveRed :: "real list list property"
  toneCurveGreen :: "real list list property"
  toneCurveBlue :: "real list list property"

datatype error = Error string | RangeError string

type_synonym ColorPoint = "real \<times> real \<times> real"

text \<open>A colour point whose components may be \<open>NaN\<close>.\<close>

type_synonym ColorPointN = "jsnum \<times> jsnum \<times> jsnum"

record ProcessingFactors =
  pf_exposure :: real
  pf_contrast :: real

definition DEFAULT_TONE_CURVE :: "real list list" where
  "DEFAULT_TONE_CURVE = [[0, 0], [255, 255]]"

definition LUT_SIZE :: nat where
  "LUT_SIZE = 32"

definition MAX_CONTRAST_FACTOR :: real where
  "MAX_CONTRAST_FACTOR = 5"

definition validateToneCurvePoints :: "real list list \<Rightarrow> bool" where
  \<comment> \<open>Every point is a pair; a \<open>real\<close> is a number and not \<open>NaN\<close>.\<close>
  "validateToneCurvePoints points = list_all (\<lambda>point. length point = 2) points"

definition joinComma :: "string list \<Rightarrow> string" where
  \<comment> \<open>\<open>missing.join(", ")\<close>\<close>
  "joinComma xs = (case xs of [] \<Rightarrow> [] | x # ys \<Rightarrow> x @ concat (map (\<lambda>y. '', '' @ y) ys))"

definition validateImageProperties :: "ImageProperties \<Rightarrow> error option" where
  \<comment> \<open>\<open>None\<close> when nothing is thrown. \<open>exposure\<close> and \<open>contrast\<close> are fields of every
      record, so only the curves can be missing.\<close>
  "validateImageProperties properties =
     (let missing =
            (if toneCurveRed properties = Absent then [''toneCurveRed''] else []) @
            (if toneCurveGreen properties = Absent then [''toneCurveGreen''] else []) @
            (if toneCurveBlue properties = Absent then [''toneCurveBlue''] else [])
      in if length missing > 0
         then Some (Error (''Missing required properties: '' @ joinComma missing))
         else None)"

fun toneCurveSegments :: "real \<Rightarrow> real list list \<Rightarrow> jsnum" where
  \<comment> \<open>The loop of \<open>applyToneCurve\<close> over consecutive points. Its quotients and its
      product can underflow; on finite numbers nothing in it can overflow, since the value
      lies between the two scaled inputs. In the first segment that holds the value the
      divisor is 0 only when the two scaled inputs are equal, the value sits on both, and
      the quotient is 0 / 0.\<close>
  "toneCurveSegments v (p1 # p2 # rest) =
     (let x1 = p1 ! 0; y1 = p1 ! 1; x2 = p2 ! 0; y2 = p2 ! 1
      in if v \<ge> underflow (x1 / 255) \<and> v \<le> underflow (x2 / 255)
         then (case jsdiv (v - underflow (x1 / 255))
                      (underflow (x2 / 255) - underflow (x1 / 255)) of
                 None \<Rightarrow> None
               | Some t \<Rightarrow>
                   Some (underflow (y1 / 255) +
                         underflow (underflow t *
                                    (underflow (y2 / 255) - underflow (y1 / 255)))))
         else toneCurveSegments v (p2 # rest))"
| "toneCurveSegments v _ = Some v"

definition applyToneCurve :: "real \<Rightarrow> real list list option \<Rightarrow> jsnum" where
  "applyToneCurve v curve =
     (let toneCurve = (case curve of
                         Some c \<Rightarrow> if validateToneCurvePoints c then c else DEFAULT_TONE_CURVE
                       | None \<Rightarrow> DEFAULT_TONE_CURVE)
      in toneCurveSegments v toneCurve)"

fun applyColorMatrix :: "ColorPoint \<Rightarrow> Matrix3x3 \<Rightarrow> ColorPoint" where
  "applyColorMatrix (pr, pg, pb) ((m00, m01, m02), (m10, m11, m12), (m20, m21, m22)) =
     (pr * m00 + pg * m01 + pb * m02,
      pr * m10 + pg * m11 + pb * m12,
      pr * m20 + pg * m21 + pb * m22)"

fun applyToneCurves :: "ColorPoint \<Rightarrow> ImageProperties \<Rightarrow> ColorPointN" where
  "applyToneCurves (pr, pg, pb) properties =
     (applyToneCurve pr (propValue (toneCurveRed properties)),
      applyToneCurve pg (propValue (toneCurveGreen properties)),
      applyToneCurve pb (propValue (toneCurveBlue properties)))"

definition calculateProcessingFactors :: "ImageProperties \<Rightarrow> ProcessingFactors" where
  \<comment> \<open>At contrast 100 the angle is \<open>pi / 2\<close>, where \<open>Math.tan\<close> returns a large finite
      number and the minimum is \<open>MAX_CONTRAST_FACTOR\<close>.\<close>
  "calculateProcessingFactors properties =
     (let normalizedExposure = max (- 10) (min 10 (exposure properties));
          normalizedContrast = max (- 100) (min 100 (contrast properties))
      in \<lparr>pf_exposure = 2 powr (normalizedExposure / 2),
          pf_contrast = (if normalizedContrast = 100 then MAX_CONTRAST_FACTOR
                         else min MAX_CONTRAST_FACTOR
                                (tan (((normalizedContrast + 100) * pi) / 400)))\<rparr>)"

definition applyFactor :: "ProcessingFactors \<Rightarrow> jsnum \<Rightarrow> jsnum" where
  \<comment> \<open>\<open>Math.max\<close> and \<open>Math.min\<close> return \<open>NaN\<close> on \<open>NaN\<close>.\<close>
  "applyFactor factors v =
     map_option (\<lambda>x. max 0 (min 1 (x * pf_exposure factors * pf_contrast factors))) v"

fun applyFactors :: "ColorPointN \<Rightarrow> ProcessingFactors \<Rightarrow> ColorPointN" where
  "applyFactors (pr, pg, pb) factors =
     (applyFactor factors pr, applyFactor factors pg, applyFactor factors pb)"

definition calculateHueSaturationMatrix :: "real \<Rightarrow> real \<Rightarrow> Matrix3x3" where
  "calculateHueSaturationMatrix hue saturation =
     (let hueRad = (hue * pi) / 180;
          cosH = cos hueRad;
          sinH = sin hueRad;
          satFactor = 1 + saturation / 100
      in ((0.213 + cosH * 0.787 * satFactor,
           0.213 - cosH * 0.213 * satFactor + sinH * 0.143,
           0.213 - cosH * 0.213 * satFactor - sinH * 0.787),
          (0.715 - cosH * 0.715 * satFactor - sinH * 0.715,
           0.715 + cosH * 0.285 * satFactor,
           0.715 - cosH * 0.715 * satFactor + sinH * 0.715),
          (0.072 - cosH * 0.072 * satFactor + sinH * 0.928,
           0.072 - cosH * 0.072 * satFactor - sinH * 0.283,
           0.072 + cosH * 0.928 * satFactor)))"

definition calculateColorMatrixFromProperties :: "ImageProperties \<Rightarrow> Matrix3x3" where
  "calculateColorMatrixFromProperties properties =
     (let colorRanges =
            [(redHue properties, redSaturation properties),
             (orangeHue properties, orangeSaturation properties),
             (yellowHue properties, yellowSaturation properties),
             (greenHue properties, greenSaturation properties),
             (aquaHue properties, aquaSaturation properties),
             (blueHue properties, blueSaturation properties),
             (purpleHue properties, purpleSaturation properties),
             (magentaHue properties, magentaSaturation properties)]
      in foldl (\<lambda>resultMatrix (hue, saturation).
                  if hue \<noteq> 0 \<or> saturation \<noteq> 0
                  then multiplyMatrices resultMatrix (calculateHueSaturationMatrix hue saturation)
                  else resultMatrix)
           IDENTITY_MATRIX colorRanges)"

definition generateCUBEHeader :: "string \<Rightarrow> string" where
  "generateCUBEHeader filename =
     ''#Created by NE-Presets'' @ [CHR 10] @
     ''#Copyright 2024'' @ [CHR 10] @
     ''#Source Image: '' @ filename @ [CHR 10] @
     ''TITLE \"NE-Presets LUT\"'' @ [CHR 10] @
     ''DOMAIN_MIN 0 0 0'' @ [CHR 10] @
     ''DOMAIN_MAX 1 1 1'' @ [CHR 10] @
     ''LUT_3D_SIZE 32'' @ [CHR 10] @ [CHR 10]"

definition lutGrid :: "ColorPoint list" where
  \<comment> \<open>The initial colour points in the order of the three nested loops: \<open>b\<close> outermost,
      then \<open>g\<close>, then \<open>r\<close>.\<close>
  "lutGrid =
     (let step = 1 / (real LUT_SIZE - 1)
      in concat (map (\<lambda>bi.
           concat (map (\<lambda>gi.
             map (\<lambda>ri. (real ri * step, real gi * step, real bi * step)) [0 ..< LUT_SIZE])
           [0 ..< LUT_SIZE]))
         [0 ..< LUT_SIZE]))"

definition lutPoint :: "ImageProperties \<Rightarrow> ColorPoint \<Rightarrow> ColorPointN" where
  \<comment> \<open>The body of the innermost loop, before the point is formatted. The colour matrix
      is an array, which is truthy, so the identity fallback is never taken.\<close>
  "lutPoint properties point0 =
     (let finalColorMatrix = calculateColorMatrixFromProperties properties;
          factors = calculateProcessingFactors properties;
          point1 = applyColorMatrix point0 finalColorMatrix;
          point2 = applyToneCurves point1 properties
      in applyFactors point2 factors)"

definition lutPoints :: "ImageProperties \<Rightarrow> ColorPointN list" where
  "lutPoints properties = map (lutPoint properties) lutGrid"

definition generateCUBELUT ::
    "(ColorPointN \<Rightarrow> string) \<Rightarrow> ImageProperties \<Rightarrow> string \<Rightarrow> error + string" where
  \<comment> \<open>\<open>formatLUTPoint\<close>, which prints the three components with \<open>toFixed(6)\<close>, is the
      parameter \<open>formatLUTPoint\<close>.\<close>
  "generateCUBELUT formatLUTPoint properties filename =
     (case validateImageProperties properties of
        Some e \<Rightarrow> Inl e
      | None \<Rightarrow> Inr (generateCUBEHeader filename @ concat (map formatLUTPoint (lutPoints properties))))"

text \<open>One row of the grid: the innermost loop at fixed \<open>b\<close> and \<open>g\<close>.\<close>

definition lutRow :: "nat \<Rightarrow> nat \<Rightarrow> ColorPoint list" where
  "lutRow bi gi = map (\<lambda>ri. (real ri * (1 / 31), real gi * (1 / 31), real bi * (1 / 31))) [0 ..< 32]"

text \<open>
  Strictly increasing input values of a curve, a component that is a number in the
  declared domain from 0 to 1, and a record used as an example.
\<close>

definition inputBefore :: "real list \<Rightarrow> real list \<Rightarrow> bool" where
  "inputBefore p q = (case (elemAt p 0, elemAt q 0) of (Some x, Some y) \<Rightarrow> x < y | _ \<Rightarrow> False)"

definition strictlyIncreasingInputs :: "real list list \<Rightarrow> bool" where
  "strictlyIncreasingInputs curve = sorted_wrt inputBefore curve"

definition curveInputsIncrease :: "real list list option \<Rightarrow> bool" where
  "curveInputsIncrease curve = (case curve of None \<Rightarrow> True | Some c \<Rightarrow> strictlyIncreasingInputs c)"

text \<open>
  Inputs between 0 and 255 that grow by at least 1 from each point to the next, as the
  rounded inputs of the curves of the analysis do; and band adjustments between -180 and
  180, which keep the colour matrix far inside the range of doubles.
\<close>

definition inputInRange :: "real list \<Rightarrow> bool" where
  "inputInRange p = (case elemAt p 0 of Some x \<Rightarrow> 0 \<le> x \<and> x \<le> 255 | None \<Rightarrow> False)"

definition inputSpaced :: "real list \<Rightarrow> real list \<Rightarrow> bool" where
  "inputSpaced p q =
     (case (elemAt p 0, elemAt q 0) of (Some x, Some y) \<Rightarrow> x + 1 \<le> y | _ \<Rightarrow> False)"

definition curveInputsSpaced :: "real list list option \<Rightarrow> bool" where
  "curveInputsSpaced curve =
     (case curve of
        None \<Rightarrow> True
      | Some c \<Rightarrow> list_all inputInRange c \<and> sorted_wrt inputSpaced c)"

definition bandAdjustments :: "ImageProperties \<Rightarrow> real list" where
  "bandAdjustments properties =
     [redHue properties, redSaturation properties,
      orangeHue properties, orangeSaturation properties,
      yellowHue properties, yellowSaturation properties,
      greenHue properties, greenSaturation properties,
      aquaHue properties, aquaSaturation properties,
      blueHue properties, blueSaturation properties,
      purpleHue properties, purpleSaturation properties,
      magentaHue properties, magentaSaturation properties]"

definition bandAdjustmentsBounded :: "ImageProperties \<Rightarrow> bool" where
  "bandAdjustmentsBounded properties =
     list_all (\<lambda>v. - 180 \<le> v \<and> v \<le> 180) (bandAdjustments properties)"

definition inUnit :: "jsnum \<Rightarrow> bool" where
  "inUnit v = (case v of None \<Rightarrow> False | Some x \<Rightarrow> 0 \<le> x \<and> x \<le> 1)"

definition sampleProperties :: ImageProperties where
  "sampleProperties =
     \<lparr>exposure = 0, contrast = 0,
      redHue = 0, redSaturation = 0, orangeHue = 0, orangeSaturation = 0,
      yellowHue = 0, yellowSaturation = 0, greenHue = 0, greenSaturation = 0,
      aquaHue = 0, aquaSaturation = 0, blueHue = 0, blueSaturation = 0,
      purpleHue = 0, purpleSaturation = 0, magentaHue = 0, magentaSaturation = 0,
      toneCurveRed = Present (Some [[0, 0], [128, 140], [255, 255]]),
      toneCurveGreen = Present None,
      toneCurveBlue = Present (Some [[0, 0], [255]])\<rparr>"

text \<open>
  A record with no band adjustment whose red curve has the smallest positive double,
  \<open>2^-1074\<close>, as its second input.
\<close>

definition smallestDouble :: real where
  "smallestDouble = 1 / 2 ^ 1074"

definition underflowProperties :: ImageProperties where
  "underflowProperties =
     \<lparr>exposure = 0, contrast = 0,
      redHue = 0, redSaturation = 0, orangeHue = 0, orangeSaturation = 0,
      yellowHue = 0, yellowSaturation = 0, greenHue = 0, greenSaturation = 0,
      aquaHue = 0, aquaSaturation = 0, blueHue = 0, blueSaturation = 0,
      purpleHue = 0, purpleSaturation = 0, magentaHue = 0, magentaSaturation = 0,
      toneCurveRed = Present (Some [[0, 0], [smallestDouble, 1], [255, 255]]),
      toneCurveGreen = Present None,
      toneCurveBlue = Present None\<rparr>"

section \<open>Numbers with the range of doubles\<close>

text \<open>
  The tone curve synthesis is modelled on numbers that have the range of doubles: a
  finite value, one of the two infinities, or \<open>NaN\<close>. A sum whose magnitude reaches
  \<open>2^1024 - 2^970\<close> is rounded to an infinity; so is a product, a quotient or an
  exponential, which in addition is rounded to 0 when its magnitude is at most
  \<open>2^-1075\<close>. Inside that range a result is exact: rounding to 53 bits is outside the
  model, and so is the sign of zero.
\<close>

datatype number = Fin real | PosInf | NegInf | NaN

definition overflow :: "real \<Rightarrow> number" where
  "overflow r =
     (if r \<ge> 2 ^ 1024 - 2 ^ 970 then PosInf
      else if r \<le> - (2 ^ 1024 - 2 ^ 970) then NegInf
      else Fin r)"

definition rangeOf :: "real \<Rightarrow> number" where
  "rangeOf r = overflow (underflow r)"

fun negative :: "number \<Rightarrow> bool" where
  "negative (Fin x) = (x < 0)"
| "negative NegInf = True"
| "negative _ = False"

fun negN :: "number \<Rightarrow> number" where
  "negN (Fin x) = Fin (- x)"
| "negN PosInf = NegInf"
| "negN NegInf = PosInf"
| "negN NaN = NaN"

fun plusN :: "number \<Rightarrow> number \<Rightarrow> number" where
  "plusN NaN _ = NaN"
| "plusN _ NaN = NaN"
| "plusN (Fin x) (Fin y) = overflow (x + y)"
| "plusN PosInf NegInf = NaN"
| "plusN NegInf PosInf = NaN"
| "plusN PosInf _ = PosInf"
| "plusN NegInf _ = NegInf"
| "plusN (Fin x) v = v"

definition minusN :: "number \<Rightarrow> number \<Rightarrow> number" where
  "minusN u v = plusN u (negN v)"

fun timesN :: "number \<Rightarrow> number \<Rightarrow> number" where
  "timesN NaN _ = NaN"
| "timesN _ NaN = NaN"
| "timesN (Fin x) (Fin y) = rangeOf (x * y)"
| "timesN u v =
     (if u = Fin 0 \<or> v = Fin 0 then NaN
      else if negative u \<noteq> negative v then NegInf
      else PosInf)"

fun divideN :: "number \<Rightarrow> number \<Rightarrow> number" where
  \<comment> \<open>A zero divisor is taken as positive zero: the one divisor of the synthesis that can
      be zero is the product \<open>2 * sigma * sigma\<close>, which is never negative zero.\<close>
  "divideN NaN _ = NaN"
| "divideN _ NaN = NaN"
| "divideN (Fin x) (Fin y) =
     (if y = 0 then (if x = 0 then NaN else if x < 0 then NegInf else PosInf)
      else rangeOf (x / y))"
| "divideN (Fin x) _ = Fin 0"
| "divideN u (Fin y) = (if negative u \<noteq> (y < 0) then NegInf else PosInf)"
| "divideN _ _ = NaN"

fun absN :: "number \<Rightarrow> number" where
  "absN (Fin x) = Fin \<bar>x\<bar>"
| "absN NaN = NaN"
| "absN _ = PosInf"

fun ltN :: "number \<Rightarrow> number \<Rightarrow> bool" where
  \<comment> \<open>\<open>u < v\<close>, which is false when either is \<open>NaN\<close>.\<close>
  "ltN NaN _ = False"
| "ltN _ NaN = False"
| "ltN (Fin x) (Fin y) = (x < y)"
| "ltN _ NegInf = False"
| "ltN PosInf _ = False"
| "ltN _ _ = True"

definition gtN :: "number \<Rightarrow> number \<Rightarrow> bool" where
  "gtN u v = ltN v u"

definition Math_min :: "number \<Rightarrow> number \<Rightarrow> number" where
  "Math_min u v = (if u = NaN \<or> v = NaN then NaN else if ltN v u then v else u)"

definition Math_max :: "number \<Rightarrow> number \<Rightarrow> number" where
  "Math_max u v = (if u = NaN \<or> v = NaN then NaN else if ltN u v then v else u)"

definition minOf :: "number list \<Rightarrow> number" where
  \<comment> \<open>\<open>Math.min(...xs)\<close>, which is plus infinity for no argument.\<close>
  "minOf xs = foldl Math_min PosInf xs"

definition maxOf :: "number list \<Rightarrow> number" where
  \<comment> \<open>\<open>Math.max(...xs)\<close>, which is minus infinity for no argument.\<close>
  "maxOf xs = foldl Math_max NegInf xs"

fun expN :: "number \<Rightarrow> number" where
  "expN (Fin x) = rangeOf (exp x)"
| "expN PosInf = PosInf"
| "expN NegInf = Fin 0"
| "expN NaN = NaN"

fun sinN :: "number \<Rightarrow> number" where
  \<comment> \<open>The sine of a non-zero double is never small enough to underflow.\<close>
  "sinN (Fin x) = Fin (sin x)"
| "sinN _ = NaN"

fun roundN :: "number \<Rightarrow> number" where
  \<comment> \<open>\<open>Math.round\<close>\<close>
  "roundN (Fin x) = Fin (Math_round x)"
| "roundN v = v"

section \<open>Tone curves (tone-analysis.ts)\<close>

record TonePoint =
  tp_input :: number
  tp_output :: number
  tp_weight :: number

definition sCurveStrength :: "TonePoint list \<Rightarrow> number" where
  "sCurveStrength points =
     (let meanBrightness =
            divideN (foldl (\<lambda>sum p. plusN sum (tp_input p)) (Fin 0) points)
              (Fin (real (length points)));
          contrastFactor =
            divideN (foldl (\<lambda>sum p. plusN sum (absN (minusN (tp_input p) meanBrightness)))
                       (Fin 0) points)
              (Fin (real (length points)));
          dynamicRange = minusN (maxOf (map tp_input points)) (minOf (map tp_input points))
      in Math_min (Fin 0.8)
           (Math_max (Fin 0.2)
              (plusN (plusN (Fin 0.4) (timesN (divideN contrastFactor (Fin 128)) (Fin 0.2)))
                 (timesN (minusN (Fin 1) (divideN dynamicRange (Fin 255))) (Fin 0.2)))))"

definition numPoints :: "TonePoint list \<Rightarrow> number" where
  "numPoints points =
     (let totalWeight = foldl (\<lambda>sum point. plusN sum (tp_weight point)) (Fin 0) points;
          weightedPoints = filter (\<lambda>point. gtN (tp_weight point) (Fin 0.1)) points;
          basePoints = Fin 5;
          complexityFactor =
            Math_min (divideN (timesN (Fin (real (length weightedPoints))) totalWeight)
                        (Fin (real (length points))))
              (Fin 3)
      in Math_min (Fin 20)
           (Math_max (Fin 5) (roundN (plusN basePoints (timesN complexityFactor (Fin 5))))))"

definition shoulderPoint :: "TonePoint \<Rightarrow> TonePoint list" where
  \<comment> \<open>What one point of \<open>points\<close> pushes onto \<open>shoulderPoints\<close>.\<close>
  "shoulderPoint point =
     (let shadowThreshold = Fin 64; highlightThreshold = Fin 192
      in if ltN (tp_input point) shadowThreshold then
           (let shoulderPos = plusN (tp_input point) (timesN (tp_weight point) shadowThreshold)
            in [\<lparr>tp_input = shoulderPos,
                 tp_output = plusN shoulderPos
                               (timesN (minusN (tp_output point) (tp_input point)) (Fin 0.5)),
                 tp_weight = timesN (tp_weight point) (Fin 0.5)\<rparr>])
         else if gtN (tp_input point) highlightThreshold then
           (let shoulderPos =
                  minusN (tp_input point)
                    (timesN (minusN (Fin 255) (tp_input point)) (tp_weight point))
            in [\<lparr>tp_input = shoulderPos,
                 tp_output = plusN shoulderPos
                               (timesN (minusN (tp_output point) (tp_input point)) (Fin 0.5)),
                 tp_weight = timesN (tp_weight point) (Fin 0.5)\<rparr>])
         else [])"

definition notAfter :: "TonePoint \<Rightarrow> TonePoint \<Rightarrow> bool" where
  \<comment> \<open>The comparator \<open>a.input - b.input\<close> is not positive; a result \<open>NaN\<close> counts as 0.\<close>
  "notAfter p q =
     (case minusN (tp_input p) (tp_input q) of
        Fin d \<Rightarrow> d \<le> 0
      | PosInf \<Rightarrow> False
      | NegInf \<Rightarrow> True
      | NaN \<Rightarrow> True)"

fun insertPoint :: "TonePoint \<Rightarrow> TonePoint list \<Rightarrow> TonePoint list" where
  "insertPoint p [] = [p]"
| "insertPoint p (q # qs) = (if notAfter p q then p # q # qs else q # insertPoint p qs)"

definition sortByInput :: "TonePoint list \<Rightarrow> TonePoint list" where
  \<comment> \<open>The sort of the runtime is stable. Where the comparator is not consistent, on an
      input that is \<open>NaN\<close>, the order is left to the implementation; the model inserts
      each point before the first one it does not come after.\<close>
  "sortByInput ps = foldr insertPoint ps []"

definition allPoints :: "TonePoint list \<Rightarrow> TonePoint list" where
  "allPoints points = sortByInput (points @ concat (map shoulderPoint points))"

definition influence :: "number \<Rightarrow> number \<Rightarrow> TonePoint \<Rightarrow> number" where
  "influence n position point =
     (let distance = absN (minusN position (tp_input point));
          sigma = timesN (divideN (Fin 255) (timesN n (Fin 2))) (plusN (Fin 1) (tp_weight point))
      in expN (divideN (timesN (negN distance) distance)
                 (timesN (timesN (Fin 2) sigma) sigma)))"

definition accumulate :: "number \<Rightarrow> number \<Rightarrow> TonePoint list \<Rightarrow> number \<times> number" where
  \<comment> \<open>The pair \<open>(weightedSum, totalWeight)\<close> after the inner \<open>forEach\<close>.\<close>
  "accumulate n position pts =
     foldl (\<lambda>(weightedSum, totalWeight) point.
              (let w = timesN (tp_weight point) (influence n position point)
               in (plusN weightedSum (timesN (minusN (tp_output point) (tp_input point)) w),
                   plusN totalWeight w)))
       (Fin 0, Fin 0) pts"

definition curveEntry :: "number \<Rightarrow> number \<Rightarrow> TonePoint list \<Rightarrow> nat \<Rightarrow> number list" where
  \<comment> \<open>The pair pushed in iteration \<open>i\<close> of the main loop.\<close>
  "curveEntry strength n pts i =
     (let position = timesN (divideN (Fin (real i)) (minusN n (Fin 1))) (Fin 255);
          adjustment = (case accumulate n position pts of
                          (weightedSum, totalWeight) \<Rightarrow>
                            if gtN totalWeight (Fin 0) then divideN weightedSum totalWeight
                            else Fin 0);
          normalizedPos = divideN position (Fin 255);
          sCurve = plusN normalizedPos (timesN strength (sinN (timesN (Fin pi) normalizedPos)));
          blendFactor = timesN (timesN (Fin 4) normalizedPos) (minusN (Fin 1) normalizedPos);
          blendedCurve = plusN (timesN normalizedPos (minusN (Fin 1) blendFactor))
                           (timesN sCurve blendFactor);
          outputv = Math_max (Fin 0)
                      (Math_min (Fin 255)
                         (plusN (plusN position adjustment)
                            (timesN (timesN (minusN blendedCurve normalizedPos) (Fin 255))
                               (Fin 0.1))))
      in [roundN position, roundN outputv])"

fun loopCount :: "number \<Rightarrow> nat" where
  \<comment> \<open>The number of iterations of \<open>for (let i = 0; i < n; i++)\<close>; none when \<open>n\<close> is
      \<open>NaN\<close>. The bound \<open>numPoints\<close> is a minimum with 20 and is never plus infinity.\<close>
  "loopCount (Fin x) = nat \<lceil>x\<rceil>"
| "loopCount _ = 0"

definition smoothToneCurve :: "TonePoint list \<Rightarrow> number list list" where
  \<comment> \<open>On an empty list \<open>numPoints\<close> is \<open>NaN\<close>, from 0 / 0, and the loop does not run.\<close>
  "smoothToneCurve points =
     map (curveEntry (sCurveStrength points) (numPoints points) (allPoints points))
       [0 ..< loopCount (numPoints points)]"

text \<open>
  Tone points as the analysis produces them: an input between 0 and 255, an output
  between -255 and 510 (the shoulder points leave the range of the peaks by less than
  255), and a weight between 0 and 1.
\<close>

definition finIn :: "real \<Rightarrow> real \<Rightarrow> number \<Rightarrow> bool" where
  "finIn lo hi v = (case v of Fin x \<Rightarrow> lo \<le> x \<and> x \<le> hi | _ \<Rightarrow> False)"

definition boundedPoint :: "TonePoint \<Rightarrow> bool" where
  "boundedPoint p =
     (finIn 0 255 (tp_input p) \<and> finIn (- 255) 510 (tp_output p) \<and> finIn 0 1 (tp_weight p))"

definition widePoint :: "TonePoint \<Rightarrow> bool" where
  \<comment> \<open>What holds of every point of \<open>allPoints\<close> when the given points are bounded.\<close>
  "widePoint p =
     (finIn (- 1024) 1024 (tp_input p) \<and> finIn (- 1024) 1024 (tp_output p) \<and>
      finIn 0 1 (tp_weight p))"

definition inputsIncrease :: "number list list \<Rightarrow> bool" where
  \<comment> \<open>The first components are finite and strictly increasing.\<close>
  "inputsIncrease curve =
     (list_all (\<lambda>e. case elemAt e 0 of Some (Fin x) \<Rightarrow> True | _ \<Rightarrow> False) curve \<and>
      sorted_wrt (\<lambda>e f. ltN (e ! 0) (f ! 0)) curve)"

definition entryInRange :: "number list \<Rightarrow> bool" where
  \<comment> \<open>A pair of finite numbers whose second component is between 0 and 255.\<close>
  "entryInRange e = (case e of [Fin x, Fin y] \<Rightarrow> 0 \<le> y \<and> y \<le> 255 | _ \<Rightarrow> False)"

definition anchorPoints :: "TonePoint list" where
  \<comment> \<open>The two anchors that \<open>findSignificantTonePointsFromHistogram\<close> always includes.\<close>
  "anchorPoints =
     [\<lparr>tp_input = Fin 0, tp_output = Fin 0, tp_weight = Fin 1\<rparr>,
      \<lparr>tp_input = Fin 255, tp_output = Fin 255, tp_weight = Fin 1\<rparr>]"

text \<open>Two points at input 0 with weight 2 and the outputs \<open>2^1023\<close> and \<open>-2^1023\<close>.\<close>

definition hugeOutput :: real where
  "hugeOutput = 2 ^ 1023"

definition overflowPoints :: "TonePoint list" where
  "overflowPoints =
     [\<lparr>tp_input = Fin 0, tp_output = Fin hugeOutput, tp_weight = Fin 2\<rparr>,
      \<lparr>tp_input = Fin 0, tp_output = Fin (- hugeOutput), tp_weight = Fin 2\<rparr>]"

definition overflowShoulder :: "real \<Rightarrow> TonePoint" where
  \<comment> \<open>The shoulder point pushed for a point at input 0 with weight 2 and output \<open>y\<close>.\<close>
  "overflowShoulder y =
     \<lparr>tp_input = Fin 128,
      tp_output = plusN (Fin 128) (timesN (minusN (Fin y) (Fin 0)) (Fin 0.5)),
      tp_weight = Fin 1\<rparr>"


section \<open>Histogram analysis (histogram-analysis.ts)\<close>

record HistogramPeak =
  pk_position :: real
  pk_height :: real
  pk_width :: jsnum

definition Math_sqrt :: "real \<Rightarrow> jsnum" where
  \<comment> \<open>\<open>Math.sqrt\<close>: \<open>NaN\<close> below 0.\<close>
  "Math_sqrt x = (if x < 0 then None else Some (sqrt x))"

definition smoothArray :: "jsnum list \<Rightarrow> real list" where
  \<comment> \<open>\<open>sigma\<close> is the default 2 of the parameter, which no caller overrides. An entry
      that is \<open>NaN\<close> or an empty slot is skipped.\<close>
  "smoothArray arr =
     (let sigma = 2;
          windowSize = nat \<lceil>sigma * 6 :: real\<rceil>
      in map (\<lambda>i.
                let (sum, weightSum) =
                      foldl (\<lambda>(sum, weightSum) j.
                               case arr ! j of
                                 Some v \<Rightarrow>
                                   (let distance = real i - real j;
                                        w = exp (- (distance * distance) / (2 * sigma * sigma))
                                    in (sum + v * w, weightSum + w))
                               | None \<Rightarrow> (sum, weightSum))
                        (0, 0) [i - windowSize ..< Suc (min (length arr - 1) (i + windowSize))]
                in if weightSum > 0 then sum / weightSum else 0)
           [0 ..< length arr])"

definition derivativePeak :: "real list \<Rightarrow> real \<Rightarrow> real \<Rightarrow> real \<Rightarrow> nat \<Rightarrow> HistogramPeak list" where
  \<comment> \<open>What iteration \<open>i\<close> of the derivative loop pushes. With \<open>stdev = 0\<close> the
      significance is 0 or \<open>NaN\<close> and nothing is pushed.\<close>
  "derivativePeak histogram maxHeight mean stdev i =
     (let minPeakHeight = maxHeight * 0.01;
          firstDerivative =
            map (\<lambda>k. histogram ! (k + 1) - histogram ! k) [0 ..< length histogram - 1];
          secondDerivative =
            map (\<lambda>k. firstDerivative ! (k + 1) - firstDerivative ! k) [0 ..< length histogram - 2];
          current = histogram ! i
      in if current > minPeakHeight \<and> firstDerivative ! (i - 1) > 0 \<and> firstDerivative ! i < 0
         then
           (let leftWidth = (case find (\<lambda>j. secondDerivative ! j > 0) (rev [0 ..< i]) of
                               Some j \<Rightarrow> i - j | None \<Rightarrow> 0);
                rightWidth = (case find (\<lambda>j. secondDerivative ! j > 0)
                                     [i ..< length secondDerivative] of
                                Some j \<Rightarrow> j - i | None \<Rightarrow> 0);
                width = real (max leftWidth rightWidth) * 2;
                distanceFromMean = \<bar>real i - mean\<bar>
            in if stdev \<noteq> 0 \<and>
                  (current / maxHeight) * exp (- 0.5 * (distanceFromMean / stdev) ^ 2) > 0.1
               then [\<lparr>pk_position = real i, pk_height = current / maxHeight,
                      pk_width = Some width\<rparr>]
               else [])
         else [])"

definition localMaximumPeak :: "real list \<Rightarrow> real \<Rightarrow> nat \<Rightarrow> HistogramPeak list" where
  \<comment> \<open>What iteration \<open>i\<close> of the loop without mean and standard deviation pushes.\<close>
  "localMaximumPeak histogram maxHeight i =
     (let minPeakHeight = maxHeight * 0.01;
          current = histogram ! i;
          prev = histogram ! (i - 1);
          next = histogram ! (i + 1)
      in if current > minPeakHeight \<and> current > prev \<and> current > next
         then
           (let localWindow = 10;
                js = [i - localWindow ..< Suc (min (length histogram - 1) (i + localWindow))];
                (localSum, localCount) =
                  foldl (\<lambda>(localSum, localCount) j.
                           (localSum + real j * histogram ! j, localCount + histogram ! j))
                    (0, 0) js
            in if localCount > 0
               then
                 (let localMean = localSum / localCount;
                      localVariance =
                        foldl (\<lambda>localVariance j.
                                 localVariance + histogram ! j * (real j - localMean) ^ 2) 0 js;
                      peakWidth = Math_sqrt (localVariance / localCount)
                  in [\<lparr>pk_position = real i, pk_height = current / maxHeight,
                        pk_width = peakWidth\<rparr>])
               else [])
         else [])"

definition findHistogramPeaks ::
    "real list \<Rightarrow> real option \<Rightarrow> real option \<Rightarrow> error + HistogramPeak list" where
  \<comment> \<open>The histogram holds reals, which are numbers and not \<open>NaN\<close>. In the derivative
      mode \<open>new Array(histogram.length - 2)\<close> throws on fewer than two entries. On an
      empty histogram neither loop runs.\<close>
  "findHistogramPeaks histogram mean stdev =
     (case (mean, stdev) of
        (Some m, Some s) \<Rightarrow>
          if length histogram < 2 then Inl (RangeError ''Invalid array length'')
          else Inr (concat (map (derivativePeak histogram (Max (set histogram)) m s)
                              [1 ..< length histogram - 1]))
      | _ \<Rightarrow>
          if histogram = [] then Inr []
          else Inr (concat (map (localMaximumPeak histogram (Max (set histogram)))
                              [1 ..< length histogram - 1])))"

section \<open>Hue distribution and colour adjustments (color-analysis.ts)\<close>

record ColorDistribution =
  cd_mean :: LabColor
  cd_peaks :: "LabColor list"
  cd_histogram :: "jsnum list"
  cd_weight :: real

text \<open>
  The encoded image is represented by what \<open>sharp\<close> decodes from it: the raw bytes of
  the three channels, or \<open>None\<close> when the decoding rejects.
\<close>

type_synonym Buffer = "(8 word list \<times> 8 word list \<times> 8 word list) option"

definition srgbToLinear :: "real \<Rightarrow> real" where
  \<comment> \<open>The conditional that \<open>rgbToLab\<close> applies to each of \<open>rr\<close>, \<open>gg\<close> and \<open>bb\<close>.\<close>
  "srgbToLinear c = (if c > 0.04045 then ((c + 0.055) / 1.055) powr 2.4 else c / 12.92)"

definition labF :: "real \<Rightarrow> real" where
  \<comment> \<open>The conditional that \<open>rgbToLab\<close> applies to each of \<open>xxx\<close>, \<open>yyy\<close> and \<open>zzz\<close>.\<close>
  "labF t = (if t > 0.008856 then t powr (1 / 3) else 7.787 * t + 16 / 116)"

definition rgbToLab :: "real \<Rightarrow> real \<Rightarrow> real \<Rightarrow> LabColor" where
  "rgbToLab rv gv bv =
     (let rr = srgbToLinear (rv / 255);
          gg = srgbToLinear (gv / 255);
          bb = srgbToLinear (bv / 255);
          x = (rr * 0.4124 + gg * 0.3576 + bb * 0.1805) * 100;
          y = (rr * 0.2126 + gg * 0.7152 + bb * 0.0722) * 100;
          z = (rr * 0.0193 + gg * 0.1192 + bb * 0.9505) * 100;
          xn = 95.047;
          yn = 100.0;
          zn = 108.883;
          xxx = x / xn;
          yyy = y / yn;
          zzz = z / zn;
          fx = labF xxx;
          fy = labF yyy;
          fz = labF zzz
      in \<lparr>lab_l = 116 * fy - 16, lab_a = 500 * (fx - fy), lab_b = 200 * (fy - fz)\<rparr>)"

definition labHue :: "LabColor \<Rightarrow> real" where
  \<comment> \<open>The hue of a colour of the analysis. Its \<open>a\<close> and \<open>b\<close> are products, sums and
      means of differences of positive numbers: where one of them is zero it is positive
      zero.\<close>
  "labHue lab = hueFromLab (Num (lab_a lab)) (Num (lab_b lab))"

definition incrementBin :: "jsnum list \<Rightarrow> nat \<Rightarrow> jsnum list" where
  \<comment> \<open>\<open>histogram[k]++\<close>: past the end the array grows and the new entry is \<open>NaN\<close>.\<close>
  "incrementBin histogram k =
     (if k < length histogram then histogram[k := map_option (\<lambda>v. v + 1) (histogram ! k)]
      else histogram @ replicate (k - length histogram) None @ [None])"

definition pixelStep ::
    "ColorRange \<Rightarrow> 8 word list \<times> 8 word list \<times> 8 word list \<Rightarrow>
     LabColor list \<times> jsnum list \<Rightarrow> nat \<Rightarrow> LabColor list \<times> jsnum list" where
  \<comment> \<open>Iteration \<open>i\<close> of the pixel loop on the state \<open>(pixels, histogram)\<close>.\<close>
  "pixelStep rng channelData state i =
     (case channelData of (c0, c1, c2) \<Rightarrow>
      case state of (pixels, histogram) \<Rightarrow>
        (case (elemAt c0 i, elemAt c1 i, elemAt c2 i) of
           (Some rv, Some gv, Some bv) \<Rightarrow>
             (let lab = rgbToLab (real (unat rv)) (real (unat gv)) (real (unat bv));
                  hue = labHue lab
              in if inRange rng hue
                 then (pixels @ [lab], incrementBin histogram (nat \<lfloor>hue\<rfloor>))
                 else (pixels, histogram))
         | _ \<Rightarrow> (pixels, histogram)))"

definition labSum :: "LabColor list \<Rightarrow> LabColor" where
  \<comment> \<open>The \<open>reduce\<close> that adds the components.\<close>
  "labSum labs =
     foldl (\<lambda>acc lab. \<lparr>lab_l = lab_l acc + lab_l lab,
                         lab_a = lab_a acc + lab_a lab,
                         lab_b = lab_b acc + lab_b lab\<rparr>)
       \<lparr>lab_l = 0, lab_a = 0, lab_b = 0\<rparr> labs"

definition labDivide :: "LabColor \<Rightarrow> nat \<Rightarrow> LabColor option" where
  \<comment> \<open>The three \<open>/= count\<close>; \<open>None\<close> when they divide by 0.\<close>
  "labDivide s n =
     (case (jsdiv (lab_l s) (real n), jsdiv (lab_a s) (real n), jsdiv (lab_b s) (real n)) of
        (Some lv, Some av, Some bv) \<Rightarrow> Some \<lparr>lab_l = lv, lab_a = av, lab_b = bv\<rparr>
      | _ \<Rightarrow> None)"

definition peakColor :: "LabColor list \<Rightarrow> LabColor \<Rightarrow> HistogramPeak \<Rightarrow> LabColor option" where
  \<comment> \<open>The representative colour of one peak. A comparison with \<open>NaN\<close> is false.\<close>
  "peakColor pixels mean peak =
     (let peakPixels =
            filter (\<lambda>lab. case pk_width peak of
                             None \<Rightarrow> False
                           | Some w \<Rightarrow> \<bar>labHue lab - pk_position peak\<bar> < w / 2) pixels
      in if length peakPixels = 0 then Some mean
         else labDivide (labSum peakPixels) (length peakPixels))"

definition emptyHistogram :: "jsnum list" where
  \<comment> \<open>\<open>new Array(360).fill(0)\<close>\<close>
  "emptyHistogram = replicate 360 (Some 0)"

definition zeroDistribution :: "jsnum list \<Rightarrow> ColorDistribution" where
  "zeroDistribution histogram =
     \<lparr>cd_mean = \<lparr>lab_l = 0, lab_a = 0, lab_b = 0\<rparr>, cd_peaks = [],
      cd_histogram = histogram, cd_weight = 0\<rparr>"

definition scanPixels ::
    "ColorRange \<Rightarrow> 8 word list \<times> 8 word list \<times> 8 word list \<Rightarrow> LabColor list \<times> jsnum list" where
  \<comment> \<open>The pixel loop.\<close>
  "scanPixels rng channelData =
     foldl (pixelStep rng channelData) ([], emptyHistogram) [0 ..< length (fst channelData)]"

definition analyzeColorDistribution :: "Buffer \<Rightarrow> ColorRange \<Rightarrow> ColorDistribution option" where
  \<comment> \<open>\<open>None\<close>: a division by 0 made a field of the result \<open>NaN\<close> or infinite. The
      \<open>catch\<close> block answers a rejected decoding and an exception of the peak search.\<close>
  "analyzeColorDistribution buffer rng =
     (case buffer of
        None \<Rightarrow> Some (zeroDistribution emptyHistogram)
      | Some channelData \<Rightarrow>
          (case scanPixels rng channelData of (pixels, histogram) \<Rightarrow>
             if length pixels = 0 then Some (zeroDistribution histogram)
             else
               (case labDivide (labSum pixels) (length pixels) of
                  None \<Rightarrow> None
                | Some mean \<Rightarrow>
                    (case findHistogramPeaks (smoothArray histogram) None None of
                       Inl e \<Rightarrow> Some (zeroDistribution emptyHistogram)
                     | Inr histogramPeaks \<Rightarrow>
                         (case those (map (peakColor pixels mean) histogramPeaks) of
                            None \<Rightarrow> None
                          | Some peaks \<Rightarrow>
                              (case jsdiv (real (length pixels))
                                      (real (length (fst channelData))) of
                                 None \<Rightarrow> None
                               | Some w \<Rightarrow>
                                   Some \<lparr>cd_mean = mean, cd_peaks = peaks,
                                         cd_histogram = histogram, cd_weight = w\<rparr>))))))"

definition hueDiff :: "real \<Rightarrow> LabColor \<Rightarrow> real" where
  \<comment> \<open>The signed difference between the hue of a colour and the centre of the band.\<close>
  "hueDiff center lab =
     (let d0 = labHue lab - center;
          d1 = (if d0 > 180 then d0 - 360 else d0)
      in if d1 < - 180 then d1 + 360 else d1)"

definition chroma :: "LabColor \<Rightarrow> real" where
  "chroma lab = sqrt (lab_a lab * lab_a lab + lab_b lab * lab_b lab)"

definition hueTermWeight :: "LabColor \<Rightarrow> real" where
  \<comment> \<open>\<open>meanWeight\<close> and \<open>peakWeight\<close> of \<open>calculateColorHue\<close>\<close>
  "hueTermWeight lab = min 1 (chroma lab / 128)"

definition hueTotals :: "ColorRange \<Rightarrow> ColorDistribution \<Rightarrow> real \<times> real" where
  \<comment> \<open>\<open>(totalAdjustment, totalWeight)\<close> after the mean and every peak.\<close>
  "hueTotals colorRange distribution =
     foldl (\<lambda>(totalAdjustment, totalWeight) lab.
              (totalAdjustment + hueDiff (range_center colorRange) lab * hueTermWeight lab,
               totalWeight + hueTermWeight lab))
       (0, 0) (cd_mean distribution # cd_peaks distribution)"

definition calculateColorHue :: "ColorChannel \<Rightarrow> Buffer \<Rightarrow> jsnum" where
  "calculateColorHue color buffer =
     (let colorRange = COLOR_RANGES color
      in case analyzeColorDistribution buffer colorRange of
           None \<Rightarrow> None
         | Some distribution \<Rightarrow>
             if cd_weight distribution = 0 then Some 0
             else
               (case hueTotals colorRange distribution of (totalAdjustment, totalWeight) \<Rightarrow>
                  if totalWeight = 0 then Some 0
                  else
                    (let scaleFactor = 0.75 * cd_weight distribution
                     in Some (Math_round ((totalAdjustment / totalWeight) * scaleFactor)))))"

definition luminanceWeight :: "LabColor \<Rightarrow> real" where
  \<comment> \<open>\<open>meanLuminanceWeight\<close> and \<open>peakLuminanceWeight\<close>\<close>
  "luminanceWeight lab = 1 - \<bar>lab_l lab - 50\<bar> / 50"

definition satTermWeight :: "ColorDistribution \<Rightarrow> LabColor \<Rightarrow> real" where
  \<comment> \<open>\<open>meanWeight\<close> and \<open>peakWeight\<close> of \<open>calculateColorSaturation\<close>\<close>
  "satTermWeight distribution lab = luminanceWeight lab * cd_weight distribution"

definition satTotals :: "ColorDistribution \<Rightarrow> real \<times> real" where
  "satTotals distribution =
     (let targetChroma = 60
      in foldl (\<lambda>(totalAdjustment, totalWeight) lab.
                  (totalAdjustment + (chroma lab - targetChroma) * satTermWeight distribution lab,
                   totalWeight + satTermWeight distribution lab))
           (0, 0) (cd_mean distribution # cd_peaks distribution))"

definition calculateColorSaturation :: "ColorChannel \<Rightarrow> Buffer \<Rightarrow> jsnum" where
  "calculateColorSaturation color buffer =
     (let colorRange = COLOR_RANGES color
      in case analyzeColorDistribution buffer colorRange of
           None \<Rightarrow> None
         | Some distribution \<Rightarrow>
             if cd_weight distribution = 0 then Some 0
             else
               (case satTotals distribution of (totalAdjustment, totalWeight) \<Rightarrow>
                  if totalWeight = 0 then Some 0
                  else
                    (let scaleFactor = 1.25
                     in Some (Math_round ((totalAdjustment / totalWeight) * scaleFactor)))))"

definition pixelAt :: "8 word list \<times> 8 word list \<times> 8 word list \<Rightarrow> nat \<Rightarrow> LabColor list" where
  \<comment> \<open>The colour of pixel \<open>i\<close> of a decoded image; none where a channel has no byte.\<close>
  "pixelAt channelData i =
     (case channelData of (c0, c1, c2) \<Rightarrow>
        (case (elemAt c0 i, elemAt c1 i, elemAt c2 i) of
           (Some rv, Some gv, Some bv) \<Rightarrow>
             [rgbToLab (real (unat rv)) (real (unat gv)) (real (unat bv))]
         | _ \<Rightarrow> []))"

definition pixelLabs :: "8 word list \<times> 8 word list \<times> 8 word list \<Rightarrow> LabColor list" where
  \<comment> \<open>The colours of the pixels of a decoded image, in order.\<close>
  "pixelLabs channelData = concat (map (pixelAt channelData) [0 ..< length (fst channelData)])"

definition pixelHues :: "8 word list \<times> 8 word list \<times> 8 word list \<Rightarrow> real list" where
  "pixelHues channelData = map labHue (pixelLabs channelData)"

definition noPixelInRange :: "Buffer \<Rightarrow> ColorRange \<Rightarrow> bool" where
  "noPixelInRange buffer rng =
     (case buffer of
        None \<Rightarrow> True
      | Some channelData \<Rightarrow> list_all (\<lambda>hue. \<not> inRange rng hue) (pixelHues channelData))"

definition labField :: "(LabColor \<Rightarrow> real) \<Rightarrow> bool" where
  \<comment> \<open>One of the three components of a colour.\<close>
  "labField f = (f = lab_l \<or> f = lab_a \<or> f = lab_b)"

definition blackPixel :: Buffer where
  \<comment> \<open>An image of one black pixel.\<close>
  "blackPixel = Some ([0], [0], [0])"

definition meanHue :: "ColorChannel \<Rightarrow> Buffer \<Rightarrow> real option" where
  \<comment> \<open>The local \<open>meanHue\<close> of \<open>calculateColorHue\<close>; \<open>None\<close> where the function returns
      before it computes it.\<close>
  "meanHue color buffer =
     (case analyzeColorDistribution buffer (COLOR_RANGES color) of
        None \<Rightarrow> None
      | Some distribution \<Rightarrow>
          if cd_weight distribution = 0 then None
          else Some (labHue (cd_mean distribution)))"

definition cancellingPixels :: Buffer where
  \<comment> \<open>An image of 3119 dark pixels: 1439 of colour (2, 10, 8), then 109 of colour
      (1, 10, 9), then 924 of colour (3, 7, 6), then 647 of colour (2, 10, 8).\<close>
  "cancellingPixels =
     Some (replicate 1439 2 @ replicate 109 1 @ replicate 924 3 @ replicate 647 2,
           replicate 1439 10 @ replicate 109 10 @ replicate 924 7 @ replicate 647 10,
           replicate 1439 8 @ replicate 109 9 @ replicate 924 6 @ replicate 647 8)"

section \<open>Matrix product\<close>

text \<open>
  C8. The identity matrix is neutral for \<open>multiplyMatrices\<close> on both sides: for every
  3x3 matrix \<open>M\<close>, \<open>multiplyMatrices(identity, M) = M\<close> and
  \<open>multiplyMatrices(M, identity) = M\<close>.
\<close>

theorem multiplyMatrices_identity:
  "multiplyMatrices IDENTITY_MATRIX M = M \<and> multiplyMatrices M IDENTITY_MATRIX = M"
proof -
  obtain r0 r1 r2 where M: "M = (r0, r1, r2)"
    by (cases M) auto
  obtain m00 m01 m02 where r0: "r0 = (m00, m01, m02)" by (cases r0) auto
  obtain m10 m11 m12 where r1: "r1 = (m10, m11, m12)" by (cases r1) auto
  obtain m20 m21 m22 where r2: "r2 = (m20, m21, m22)" by (cases r2) auto
  show ?thesis
    by (simp add: M r0 r1 r2 IDENTITY_MATRIX_def)
qed

section \<open>Hue of a Lab colour\<close>

lemma atan2_bounds: "- pi \<le> atan2 y x \<and> atan2 y x \<le> pi"
proof -
  define yv xv where "yv = valueOf y" and "xv = valueOf x"
  have lb: "- (pi / 2) < arctan (yv / xv)" and ub: "arctan (yv / xv) < pi / 2"
    by (rule arctan_lbound, rule arctan_ubound)
  have neg: "arctan (yv / xv) \<le> 0" if "xv < 0" "0 < yv"
    using that by (simp add: arctan_le_zero_iff divide_nonneg_neg)
  have pos: "0 \<le> arctan (yv / xv)" if "xv < 0" "yv < 0"
    using that by (simp add: zero_le_arctan_iff divide_nonpos_neg)
  have p: "0 < pi" by (rule pi_gt_zero)
  have a: "atan2 y x =
      (if yv = 0 then (if signBit x then (if signBit y then - pi else pi) else 0)
       else if xv = 0 then (if 0 < yv then pi / 2 else - (pi / 2))
       else if 0 < xv then arctan (yv / xv)
       else if 0 < yv then arctan (yv / xv) + pi
       else arctan (yv / xv) - pi)"
    by (simp add: atan2_def Let_def yv_def xv_def)
  consider "yv = 0" | "yv \<noteq> 0" "xv = 0" | "yv \<noteq> 0" "0 < xv"
    | "0 < yv" "xv < 0" | "yv < 0" "xv < 0"
    by linarith
  then show ?thesis
  proof cases
    case 1
    then have "atan2 y x = - pi \<or> atan2 y x = pi \<or> atan2 y x = 0" by (simp add: a)
    then show ?thesis using p by linarith
  next
    case 2
    then have "atan2 y x = pi / 2 \<or> atan2 y x = - (pi / 2)" by (simp add: a)
    then show ?thesis using p by linarith
  next
    case 3
    then have "atan2 y x = arctan (yv / xv)" by (simp add: a)
    then show ?thesis using p lb ub by linarith
  next
    case 4
    then have "atan2 y x = arctan (yv / xv) + pi" by (simp add: a)
    then show ?thesis using p lb neg [OF 4(2,1)] by linarith
  next
    case 5
    then have "atan2 y x = arctan (yv / xv) - pi" by (simp add: a)
    then show ?thesis using p ub pos [OF 5(2,1)] by linarith
  qed
qed

lemma atan2_negative_axis: "signBit x \<Longrightarrow> atan2 (Num 0) x = pi"
  by (simp add: atan2_def)

text \<open>
  C1 (as amended). For all finite chrominance values \<open>a\<close> and \<open>b\<close> the hue
  \<open>atan2(b, a) * 180 / pi + 180\<close> lies in the closed interval from 0 to 360. The upper end
  360 is reached: the hue is 360 whenever \<open>b\<close> is zero and \<open>a\<close> is negative. The
  achromatic case \<open>a = b = 0\<close> gives 180. The source evaluates the expression on the
  colour of every pixel and on the mean and the peak colours of a distribution, and
  nowhere reduces the result modulo 360.
\<close>

theorem hueFromLab_range:
  "0 \<le> hueFromLab av bv \<and> hueFromLab av bv \<le> 360 \<and>
   (signBit av \<longrightarrow> hueFromLab av (Num 0) = 360) \<and>
   hueFromLab (Num 0) (Num 0) = 180"
proof -
  define t where "t = atan2 bv av / pi"
  have h: "hueFromLab av bv = 180 * t + 180"
    by (simp add: hueFromLab_def t_def)
  have lo: "- 1 \<le> t" and hi: "t \<le> 1"
    using atan2_bounds [of bv av] pi_gt_zero by (simp_all add: t_def field_simps)
  have top: "signBit av \<longrightarrow> hueFromLab av (Num 0) = 360"
    by (simp add: hueFromLab_def atan2_negative_axis)
  have z: "hueFromLab (Num 0) (Num 0) = 180"
    by (simp add: hueFromLab_def atan2_def)
  show ?thesis
    using lo hi top z unfolding h by simp
qed

text \<open>The hue at \<open>a = -2\<close>, \<open>b = 0\<close>.\<close>

theorem hueFromLab_range_witness:
  "signBit (Num (- 2)) \<and> hueFromLab (Num (- 2)) (Num 0) = 360 \<and>
   0 \<le> hueFromLab (Num (- 2)) (Num 0) \<and> hueFromLab (Num (- 2)) (Num 0) \<le> 360"
  using hueFromLab_range [of "Num (- 2)" "Num 0"] by simp

section \<open>Hue bands\<close>

text \<open>
  C6. Membership in a hue band is wrap-aware: when \<open>start > end\<close> a hue is in range
  iff it is at least \<open>start\<close> or at most \<open>end\<close>, otherwise iff it is at least
  \<open>start\<close> and at most \<open>end\<close>. For the red band (345 to 15) the hues 350 and 10
  are in range and the hue 200 is not.
\<close>

theorem inRange_wrap_aware:
  "(range_start rng > range_end rng \<longrightarrow>
      inRange rng h = (h \<ge> range_start rng \<or> h \<le> range_end rng)) \<and>
   (\<not> range_start rng > range_end rng \<longrightarrow>
      inRange rng h = (h \<ge> range_start rng \<and> h \<le> range_end rng)) \<and>
   inRange (COLOR_RANGES red) 350 \<and> inRange (COLOR_RANGES red) 10 \<and>
   \<not> inRange (COLOR_RANGES red) 200"
  by (simp add: inRange_def COLOR_RANGES_def)


text \<open>The red band wraps and the orange band does not.\<close>

theorem inRange_wrap_aware_witness:
  "range_start (COLOR_RANGES red) > range_end (COLOR_RANGES red) \<and>
   inRange (COLOR_RANGES red) 350 = (350 \<ge> range_start (COLOR_RANGES red) \<or> 350 \<le> range_end (COLOR_RANGES red)) \<and>
   \<not> range_start (COLOR_RANGES orange) > range_end (COLOR_RANGES orange) \<and>
   inRange (COLOR_RANGES orange) 350 = (350 \<ge> range_start (COLOR_RANGES orange) \<and> 350 \<le> range_end (COLOR_RANGES orange))"
  using inRange_wrap_aware [of "COLOR_RANGES red" 350] inRange_wrap_aware [of "COLOR_RANGES orange" 350]
  by (simp add: COLOR_RANGES_def)

section \<open>Linear approximation of a tone curve\<close>

lemma convertToneCurveToMatrix_slope:
  assumes "c = [x0, y0] # rest" and "last c = [xn, yn]" and "2 \<le> length c"
    and "x0 \<noteq> 0" "y0 \<noteq> 0" "xn \<noteq> 0" "yn \<noteq> 0" "xn \<noteq> x0"
  shows "convertToneCurveToMatrix (Some c) = (Some ((yn - y0) / (xn - x0)), 0, 0)"
proof -
  have f: "c ! 0 = [x0, y0]" using assms(1) by simp
  have "c \<noteq> []" using assms(1) by simp
  then have l: "c ! (length c - Suc 0) = [xn, yn]" using assms(2) by (simp add: last_conv_nth)
  show ?thesis
    using assms(3-8) by (simp add: convertToneCurveToMatrix_def f l falsy_def elemAt_def jsdiv_def)
qed

lemma convertToneCurveToMatrix_input_zero:
  assumes "c = (0 # ys) # rest" and "2 \<le> length c"
  shows "convertToneCurveToMatrix (Some c) = (Some 1, 0, 0)"
  using assms by (simp add: convertToneCurveToMatrix_def falsy_def elemAt_def)

text \<open>
  C4. For a curve of at least two points \<open>convertToneCurveToMatrix\<close> is to return
  \<open>[s, 0, 0]\<close> with \<open>s\<close> the average slope between the first and the last point. On
  the curve \<open>[[0, 0], [255, 128]]\<close> the source returns \<open>[1, 0, 0]\<close>, not the slope
  \<open>128 / 255\<close>: the guard for invalid points tests the four coordinates for truthiness,
  and the coordinate 0 is falsy. The slope is returned only when all four coordinates are
  non-zero, and a curve that begins at input 0 always gives \<open>[1, 0, 0]\<close>.
\<close>

theorem convertToneCurveToMatrix_zero_start:
  "convertToneCurveToMatrix (Some [[0, 0], [255, 128]]) = (Some 1, 0, 0) \<and>
   convertToneCurveToMatrix (Some [[0, 0], [255, 128]]) \<noteq> (Some ((128 - 0) / (255 - 0)), 0, 0)"
  by (simp add: convertToneCurveToMatrix_def falsy_def elemAt_def)

section \<open>Layout of the lookup table\<close>

lemma length_concat_map_upt:
  "(\<And>k. k < n \<Longrightarrow> length (f k) = m) \<Longrightarrow> length (concat (map f [0 ..< n])) = n * m"
  by (induction n) simp_all

lemma nth_concat_map_upt:
  "(\<And>k. k < n \<Longrightarrow> length (f k) = m) \<Longrightarrow> i < n \<Longrightarrow> j < m \<Longrightarrow>
   concat (map f [0 ..< n]) ! (i * m + j) = f i ! j"
proof (induction n)
  case 0
  then show ?case by simp
next
  case (Suc n)
  have L: "length (concat (map f [0 ..< n])) = n * m"
    using Suc.prems(1) by (simp add: length_concat_map_upt)
  show ?case
  proof (cases "i < n")
    case True
    then have "Suc i \<le> n" by simp
    then have "Suc i * m \<le> n * m" by (rule mult_le_mono1)
    then have "i * m + j < n * m" using Suc.prems(3) by simp
    then show ?thesis
      using Suc.IH [OF _ True Suc.prems(3)] Suc.prems(1) L by (simp add: nth_append)
  next
    case False
    then have "i = n" using Suc.prems(2) by simp
    then show ?thesis using L by (simp add: nth_append)
  qed
qed

lemma lutGrid_rows:
  "lutGrid = concat (map (\<lambda>bi. concat (map (lutRow bi) [0 ..< 32])) [0 ..< 32])"
  by (simp add: lutGrid_def LUT_SIZE_def lutRow_def [abs_def] Let_def)

lemma lutGrid_length: "length lutGrid = 32768"
proof -
  have plane: "length (concat (map (lutRow bi) [0 ..< 32])) = 32 * 32" for bi
    by (rule length_concat_map_upt) (simp add: lutRow_def)
  have "length lutGrid = 32 * (32 * 32)"
    unfolding lutGrid_rows by (rule length_concat_map_upt) (simp add: plane)
  then show ?thesis by simp
qed

lemma lutGrid_nth:
  assumes "bi < 32" "gi < 32" "ri < 32"
  shows "lutGrid ! (bi * 1024 + gi * 32 + ri) = (real ri / 31, real gi / 31, real bi / 31)"
proof -
  have plane: "length (concat (map (lutRow k) [0 ..< 32])) = 1024" for k
    using length_concat_map_upt [of 32 "lutRow k" 32] by (simp add: lutRow_def)
  have inner: "gi * 32 + ri < 1024" using assms by simp
  have "lutGrid ! (bi * 1024 + (gi * 32 + ri)) = concat (map (lutRow bi) [0 ..< 32]) ! (gi * 32 + ri)"
    unfolding lutGrid_rows using plane assms(1) inner by (rule nth_concat_map_upt)
  also have "\<dots> = lutRow bi gi ! ri"
    by (rule nth_concat_map_upt) (use assms in \<open>simp_all add: lutRow_def\<close>)
  also have "\<dots> = (real ri / 31, real gi / 31, real bi / 31)"
    using assms by (simp add: lutRow_def)
  finally show ?thesis by (simp add: add.assoc)
qed

text \<open>
  C9. For every record that passes \<open>validateImageProperties\<close>, \<open>generateCUBELUT\<close>
  returns the header followed by the formatted entries, there are exactly
  \<open>32^3 = 32768\<close> of them, and the entry at index \<open>b * 32 * 32 + g * 32 + r\<close> is
  the loop body applied to the grid point \<open>(r / 31, g / 31, b / 31)\<close>: \<open>b\<close> is the
  outermost loop, \<open>r\<close> the innermost, and each coordinate runs through \<open>k / 31\<close>
  for \<open>k\<close> from 0 to 31.
\<close>

theorem generateCUBELUT_grid:
  "validateImageProperties properties = None \<longrightarrow>
     generateCUBELUT formatLUTPoint properties filename =
       Inr (generateCUBEHeader filename @ concat (map formatLUTPoint (lutPoints properties))) \<and>
     length (lutPoints properties) = 32 ^ 3 \<and> length (lutPoints properties) = 32768 \<and>
     (\<forall>bi < 32. \<forall>gi < 32. \<forall>ri < 32.
        lutPoints properties ! (bi * 32 * 32 + gi * 32 + ri) =
          lutPoint properties (real ri / 31, real gi / 31, real bi / 31))"
proof (intro impI conjI allI)
  assume "validateImageProperties properties = None"
  then show "generateCUBELUT formatLUTPoint properties filename =
       Inr (generateCUBEHeader filename @ concat (map formatLUTPoint (lutPoints properties)))"
    by (simp add: generateCUBELUT_def)
next
  show "length (lutPoints properties) = 32 ^ 3" "length (lutPoints properties) = 32768"
    by (simp_all add: lutPoints_def lutGrid_length)
next
  fix bi gi ri :: nat
  assume b: "bi < 32" and g: "gi < 32" and r: "ri < 32"
  have idx: "bi * 32 * 32 + gi * 32 + ri = bi * 1024 + gi * 32 + ri" by simp
  have "bi * 1024 + gi * 32 + ri < length lutGrid"
    using b g r by (simp add: lutGrid_length)
  then have "lutPoints properties ! (bi * 1024 + gi * 32 + ri) =
      lutPoint properties (lutGrid ! (bi * 1024 + gi * 32 + ri))"
    unfolding lutPoints_def by (rule nth_map)
  then show "lutPoints properties ! (bi * 32 * 32 + gi * 32 + ri) =
          lutPoint properties (real ri / 31, real gi / 31, real bi / 31)"
    unfolding idx lutGrid_nth [OF b g r] .
qed

text \<open>The example record is valid; its entry at \<open>b = 1\<close>, \<open>g = 2\<close>, \<open>r = 3\<close>.\<close>

theorem generateCUBELUT_grid_witness:
  "validateImageProperties sampleProperties = None \<and>
   generateCUBELUT (\<lambda>p. ''x'') sampleProperties ''a.jpg'' =
     Inr (generateCUBEHeader ''a.jpg'' @ concat (map (\<lambda>p. ''x'') (lutPoints sampleProperties))) \<and>
   length (lutPoints sampleProperties) = 32768 \<and>
   (1::nat) < 32 \<and> (2::nat) < 32 \<and> (3::nat) < 32 \<and>
   lutPoints sampleProperties ! (1 * 32 * 32 + 2 * 32 + 3) =
     lutPoint sampleProperties (real 3 / 31, real 2 / 31, real 1 / 31)"
proof -
  have v: "validateImageProperties sampleProperties = None"
    by (simp add: validateImageProperties_def sampleProperties_def)
  have i: "(1::nat) < 32" "(2::nat) < 32" "(3::nat) < 32" by simp_all
  show ?thesis
    using v i generateCUBELUT_grid [of sampleProperties "\<lambda>p. ''x''" "''a.jpg''"]
    by blast
qed

section \<open>Range of the lookup table\<close>

lemma underflow_le: "0 \<le> q \<Longrightarrow> 0 \<le> underflow q \<and> underflow q \<le> q"
  by (simp add: underflow_def)

lemma underflow_keeps:
  assumes "1 / 255 \<le> q"
  shows "underflow q = q"
proof -
  have "(255::real) < 2 ^ 8" by simp
  also have "(2::real) ^ 8 \<le> 2 ^ 1075" by (rule power_increasing) simp_all
  finally have "(1::real) / 2 ^ 1075 < 1 / 255" by (simp add: frac_less2)
  then have "1 / 2 ^ 1075 < \<bar>q\<bar>" using assms by linarith
  then show ?thesis by (simp add: underflow_def)
qed

lemma scaled_inputs_apart:
  assumes "0 \<le> x1" "x1 + 1 \<le> x2"
  shows "underflow (x1 / 255) < underflow (x2 / 255)"
proof -
  have "1 / 255 \<le> x2 / 255" using assms by simp
  then have "underflow (x2 / 255) = x2 / 255" by (rule underflow_keeps)
  moreover have "underflow (x1 / 255) \<le> x1 / 255"
    using underflow_le [of "x1 / 255"] assms(1) by simp
  moreover have "x1 / 255 < x2 / 255" using assms(2) by simp
  ultimately show ?thesis by linarith
qed

lemma toneCurveSegments_number:
  "validateToneCurvePoints c \<Longrightarrow> list_all inputInRange c \<Longrightarrow> sorted_wrt inputSpaced c \<Longrightarrow>
   \<exists>y. toneCurveSegments v c = Some y"
proof (induction v c rule: toneCurveSegments.induct)
  case (1 v p1 p2 rest)
  have "inputSpaced p1 p2" "inputInRange p1"
    using "1.prems"(2,3) by simp_all
  moreover have "length p1 = 2" "length p2 = 2"
    using "1.prems"(1) by (simp_all add: validateToneCurvePoints_def)
  ultimately have "0 \<le> p1 ! 0" "p1 ! 0 + 1 \<le> p2 ! 0"
    by (simp_all add: inputSpaced_def inputInRange_def elemAt_def)
  then have lt: "underflow (p1 ! 0 / 255) < underflow (p2 ! 0 / 255)"
    by (rule scaled_inputs_apart)
  have tl: "validateToneCurvePoints (p2 # rest)" "list_all inputInRange (p2 # rest)"
    "sorted_wrt inputSpaced (p2 # rest)"
    using "1.prems" by (simp_all add: validateToneCurvePoints_def)
  show ?case
  proof (cases "v \<ge> underflow (p1 ! 0 / 255) \<and> v \<le> underflow (p2 ! 0 / 255)")
    case True
    then show ?thesis using lt by (simp add: jsdiv_def Let_def)
  next
    case False
    then show ?thesis using "1.IH" [OF refl refl refl refl False tl] by (auto simp add: Let_def)
  qed
qed simp_all

lemma applyToneCurve_number:
  assumes "curveInputsSpaced curve"
  shows "\<exists>y. applyToneCurve v curve = Some y"
proof -
  have d: "validateToneCurvePoints DEFAULT_TONE_CURVE" "list_all inputInRange DEFAULT_TONE_CURVE"
    "sorted_wrt inputSpaced DEFAULT_TONE_CURVE"
    by (simp_all add: DEFAULT_TONE_CURVE_def validateToneCurvePoints_def
          inputInRange_def inputSpaced_def elemAt_def)
  show ?thesis
  proof (cases curve)
    case None
    then show ?thesis using toneCurveSegments_number [OF d] by (simp add: applyToneCurve_def)
  next
    case (Some c)
    then have s: "list_all inputInRange c" "sorted_wrt inputSpaced c"
      using assms by (simp_all add: curveInputsSpaced_def)
    show ?thesis
    proof (cases "validateToneCurvePoints c")
      case True
      then show ?thesis using toneCurveSegments_number [OF True s] Some
        by (simp add: applyToneCurve_def)
    next
      case False
      then show ?thesis using toneCurveSegments_number [OF d] Some
        by (simp add: applyToneCurve_def)
    qed
  qed
qed

lemma applyFactor_inUnit: "inUnit (applyFactor factors (Some x))"
  by (simp add: applyFactor_def inUnit_def)

text \<open>
  C10 (as amended). For every valid record whose band adjustments lie between -180 and
  180 and whose tone curves have input values between 0 and 255 that grow by at least 1
  from each point to the next, every component of every entry of the table is a number
  between 0 and 1: the scaled inputs of a segment are then distinct, the curve evaluation
  never divides 0 by 0, and \<open>applyFactors\<close> clamps last.
\<close>

theorem generateCUBELUT_in_domain:
  assumes "validateImageProperties properties = None"
    and "bandAdjustmentsBounded properties"
    and "curveInputsSpaced (propValue (toneCurveRed properties))"
    and "curveInputsSpaced (propValue (toneCurveGreen properties))"
    and "curveInputsSpaced (propValue (toneCurveBlue properties))"
  shows "list_all (\<lambda>(pr, pg, pb). inUnit pr \<and> inUnit pg \<and> inUnit pb) (lutPoints properties)"
proof -
  have "inUnit pr \<and> inUnit pg \<and> inUnit pb" if "lutPoint properties point0 = (pr, pg, pb)"
    for point0 pr pg pb
  proof -
    obtain qr qg qb where q: "applyColorMatrix point0 (calculateColorMatrixFromProperties properties) = (qr, qg, qb)"
      by (cases "applyColorMatrix point0 (calculateColorMatrixFromProperties properties)") auto
    obtain yr where yr: "applyToneCurve qr (propValue (toneCurveRed properties)) = Some yr"
      using applyToneCurve_number [OF assms(3)] by blast
    obtain yg where yg: "applyToneCurve qg (propValue (toneCurveGreen properties)) = Some yg"
      using applyToneCurve_number [OF assms(4)] by blast
    obtain yb where yb: "applyToneCurve qb (propValue (toneCurveBlue properties)) = Some yb"
      using applyToneCurve_number [OF assms(5)] by blast
    have "lutPoint properties point0 =
        (applyFactor (calculateProcessingFactors properties) (Some yr),
         applyFactor (calculateProcessingFactors properties) (Some yg),
         applyFactor (calculateProcessingFactors properties) (Some yb))"
      by (simp add: lutPoint_def q yr yg yb)
    then show ?thesis using that by (auto simp: applyFactor_inUnit)
  qed
  then show ?thesis by (auto simp: lutPoints_def list_all_iff)
qed

text \<open>The example record satisfies the hypotheses.\<close>

theorem generateCUBELUT_in_domain_witness:
  "validateImageProperties sampleProperties = None \<and>
   bandAdjustmentsBounded sampleProperties \<and>
   curveInputsSpaced (propValue (toneCurveRed sampleProperties)) \<and>
   curveInputsSpaced (propValue (toneCurveGreen sampleProperties)) \<and>
   curveInputsSpaced (propValue (toneCurveBlue sampleProperties)) \<and>
   list_all (\<lambda>(pr, pg, pb). inUnit pr \<and> inUnit pg \<and> inUnit pb) (lutPoints sampleProperties)"
proof -
  have v: "validateImageProperties sampleProperties = None"
    by (simp add: validateImageProperties_def sampleProperties_def)
  have a: "bandAdjustmentsBounded sampleProperties"
    by (simp add: bandAdjustmentsBounded_def bandAdjustments_def sampleProperties_def)
  have r: "curveInputsSpaced (propValue (toneCurveRed sampleProperties))"
    by (simp add: sampleProperties_def curveInputsSpaced_def inputInRange_def inputSpaced_def
          elemAt_def)
  have g: "curveInputsSpaced (propValue (toneCurveGreen sampleProperties))"
    by (simp add: sampleProperties_def curveInputsSpaced_def)
  have b: "curveInputsSpaced (propValue (toneCurveBlue sampleProperties))"
    by (simp add: sampleProperties_def curveInputsSpaced_def inputInRange_def inputSpaced_def
          elemAt_def)
  show ?thesis
    using v a r g b generateCUBELUT_in_domain [OF v a r g b] by blast
qed

text \<open>
  The claim as stated fails on a valid record whose red curve has the strictly increasing
  inputs 0, \<open>2^-1074\<close> and 255. The quotient \<open>2^-1074 / 255\<close> underflows to 0, so the
  first segment has two equal scaled inputs; at the first grid point the red value 0 sits
  on both, the interpolation divides 0 by 0, and the clamp of \<open>applyFactors\<close> keeps the
  \<open>NaN\<close>. The red component of the first entry of the table is not a number.
\<close>

lemma smallest_double_positive: "0 < smallestDouble"
  by (simp add: smallestDouble_def)

lemma smallest_double_underflows: "underflow (smallestDouble / 255) = 0"
proof -
  have "(2::real) ^ 1075 = 2 * 2 ^ 1074" by simp
  then have "(2::real) ^ 1075 \<le> 255 * 2 ^ 1074" by simp
  then have "(1::real) / (255 * 2 ^ 1074) \<le> 1 / 2 ^ 1075"
    by (intro divide_left_mono) simp_all
  then have "\<bar>((1::real) / 2 ^ 1074) / 255\<bar> \<le> 1 / 2 ^ 1075" by (simp add: mult.commute)
  then have "\<bar>smallestDouble / 255\<bar> \<le> 1 / 2 ^ 1075" by (simp only: smallestDouble_def)
  then show ?thesis unfolding underflow_def by (rule if_P)
qed

lemma identity_without_adjustments:
  "calculateColorMatrixFromProperties underflowProperties = IDENTITY_MATRIX"
  by (simp add: calculateColorMatrixFromProperties_def underflowProperties_def)

lemma underflow_red_curve:
  "toneCurveSegments 0 [[0, 0], [smallestDouble, 1], [255, 255]] = None"
proof -
  have z: "underflow (0 / 255) = 0" by (simp add: underflow_def)
  show ?thesis
    unfolding toneCurveSegments.simps Let_def
    by (simp only: nth_Cons_0 z smallest_double_underflows) (simp add: jsdiv_def)
qed

theorem generateCUBELUT_in_domain_counterexample:
  "validateImageProperties underflowProperties = None \<and>
   curveInputsIncrease (propValue (toneCurveRed underflowProperties)) \<and>
   curveInputsIncrease (propValue (toneCurveGreen underflowProperties)) \<and>
   curveInputsIncrease (propValue (toneCurveBlue underflowProperties)) \<and>
   0 < length (lutPoints underflowProperties) \<and>
   fst (lutPoints underflowProperties ! 0) = None \<and>
   \<not> inUnit (fst (lutPoints underflowProperties ! 0))"
proof -
  have v: "validateImageProperties underflowProperties = None"
    by (simp add: validateImageProperties_def underflowProperties_def)
  have "smallestDouble < 255"
    unfolding smallestDouble_def by (rule less_le_trans [of _ 1]) (simp_all add: divide_less_eq)
  then have r: "curveInputsIncrease (propValue (toneCurveRed underflowProperties))"
    using smallest_double_positive
    by (simp add: underflowProperties_def curveInputsIncrease_def strictlyIncreasingInputs_def
          inputBefore_def elemAt_def)
  have g: "curveInputsIncrease (propValue (toneCurveGreen underflowProperties))"
    "curveInputsIncrease (propValue (toneCurveBlue underflowProperties))"
    by (simp_all add: underflowProperties_def curveInputsIncrease_def)
  have len: "0 < length (lutPoints underflowProperties)"
    by (simp add: lutPoints_def lutGrid_length)
  have "lutGrid ! (0 * 1024 + 0 * 32 + 0) = (real 0 / 31, real 0 / 31, real 0 / 31)"
    by (rule lutGrid_nth) simp_all
  then have g0: "lutGrid ! 0 = (0, 0, 0)" by simp
  have e0: "lutPoints underflowProperties ! 0 = lutPoint underflowProperties (lutGrid ! 0)"
    unfolding lutPoints_def by (rule nth_map) (simp add: lutGrid_length)
  have c: "propValue (toneCurveRed underflowProperties) =
      Some [[0, 0], [smallestDouble, 1], [255, 255]]"
    by (simp add: underflowProperties_def)
  have "applyToneCurve 0 (propValue (toneCurveRed underflowProperties)) = None"
    unfolding c applyToneCurve_def Let_def
    by (simp add: validateToneCurvePoints_def underflow_red_curve del: toneCurveSegments.simps)
  then have "fst (lutPoint underflowProperties (0, 0, 0)) = None"
    by (simp add: lutPoint_def identity_without_adjustments IDENTITY_MATRIX_def
          applyFactor_def)
  then have n: "fst (lutPoints underflowProperties ! 0) = None"
    by (simp add: e0 g0)
  show ?thesis using v r g len n by (simp add: inUnit_def)
qed

section \<open>Arithmetic inside the range of doubles\<close>

lemma threshold_big: "(2::real) ^ 100 < 2 ^ 1024 - 2 ^ 970"
proof -
  have a: "(2::real) ^ 970 \<le> 2 ^ 1023" by (rule power_increasing) simp_all
  have b: "(2::real) ^ 1024 = 2 * 2 ^ 1023" by simp
  have c: "(2::real) ^ 100 < 2 ^ 1023" by (rule power_strict_increasing) simp_all
  show ?thesis using a c unfolding b by linarith
qed

lemma overflow_small: "\<bar>r\<bar> \<le> 2 ^ 100 \<Longrightarrow> overflow r = Fin r"
  using threshold_big by (simp add: overflow_def abs_le_iff)

lemma underflow_abs: "\<bar>underflow q\<bar> \<le> \<bar>q\<bar>"
  by (simp add: underflow_def)

lemma underflow_nonneg: "0 \<le> q \<Longrightarrow> 0 \<le> underflow q \<and> underflow q \<le> q"
  by (simp add: underflow_def)

lemma underflow_nonpos: "q \<le> 0 \<Longrightarrow> q \<le> underflow q \<and> underflow q \<le> 0"
  by (simp add: underflow_def)

lemma underflow_exact: "r = 0 \<or> 1 / 255 \<le> \<bar>r\<bar> \<Longrightarrow> underflow r = r"
proof (cases "r = 0")
  case True
  then show ?thesis by (simp add: underflow_def)
next
  case False
  assume "r = 0 \<or> 1 / 255 \<le> \<bar>r\<bar>"
  then have r: "1 / 255 \<le> \<bar>r\<bar>" using False by simp
  have "underflow \<bar>r\<bar> = \<bar>r\<bar>" using r by (rule underflow_keeps)
  then show ?thesis by (simp add: underflow_def split: if_splits)
qed

lemma rangeOf_small: "\<bar>r\<bar> \<le> 2 ^ 100 \<Longrightarrow> rangeOf r = Fin (underflow r)"
  unfolding rangeOf_def using underflow_abs [of r] by (intro overflow_small) linarith

lemma rangeOf_exact: "r = 0 \<or> 1 / 255 \<le> \<bar>r\<bar> \<Longrightarrow> \<bar>r\<bar> \<le> 2 ^ 100 \<Longrightarrow> rangeOf r = Fin r"
  by (simp add: rangeOf_small underflow_exact)

lemma rangeOf_not_NaN: "rangeOf r \<noteq> NaN"
  by (simp add: rangeOf_def overflow_def)

lemma finIn_Fin: "finIn lo hi (Fin x) \<longleftrightarrow> lo \<le> x \<and> x \<le> hi"
  by (simp add: finIn_def)

lemma finInE:
  assumes "finIn lo hi v"
  obtains x where "v = Fin x" "lo \<le> x" "x \<le> hi"
  using assms by (cases v) (simp_all add: finIn_def)

lemma finIn_mono: "finIn a b v \<Longrightarrow> a' \<le> a \<Longrightarrow> b \<le> b' \<Longrightarrow> finIn a' b' v"
  by (cases v) (simp_all add: finIn_def)

lemma plusN_fin:
  assumes "finIn a b u" "finIn c d v" "- (2 ^ 100) \<le> a + c" "b + d \<le> 2 ^ 100"
  shows "finIn (a + c) (b + d) (plusN u v)"
proof -
  obtain x where x: "u = Fin x" "a \<le> x" "x \<le> b" using assms(1) by (rule finInE)
  obtain y where y: "v = Fin y" "c \<le> y" "y \<le> d" using assms(2) by (rule finInE)
  have "\<bar>x + y\<bar> \<le> 2 ^ 100" using x y assms(3,4) by (simp add: abs_le_iff)
  then have "plusN u v = Fin (x + y)" by (simp add: x y overflow_small)
  then show ?thesis using x y by (simp add: finIn_Fin)
qed

lemma negN_fin: "finIn a b u \<Longrightarrow> finIn (- b) (- a) (negN u)"
  by (cases u) (simp_all add: finIn_def)

lemma minusN_fin:
  assumes "finIn a b u" "finIn c d v" "- (2 ^ 100) \<le> a - d" "b - c \<le> 2 ^ 100"
  shows "finIn (a - d) (b - c) (minusN u v)"
  unfolding minusN_def
  using plusN_fin [OF assms(1) negN_fin [OF assms(2)]] assms(3,4) by simp

lemma timesN_Fin: "\<bar>x * y\<bar> \<le> 2 ^ 100 \<Longrightarrow> timesN (Fin x) (Fin y) = Fin (underflow (x * y))"
  by (simp add: rangeOf_small)

lemma timesN_abs:
  assumes "finIn (- A) A u" "finIn (- B) B v" "A * B \<le> 2 ^ 100"
  shows "finIn (- (A * B)) (A * B) (timesN u v)"
proof -
  obtain x where x: "u = Fin x" "- A \<le> x" "x \<le> A" using assms(1) by (rule finInE)
  obtain y where y: "v = Fin y" "- B \<le> y" "y \<le> B" using assms(2) by (rule finInE)
  have "\<bar>x\<bar> \<le> A" "\<bar>y\<bar> \<le> B" using x y by (simp_all add: abs_le_iff)
  then have "\<bar>x\<bar> * \<bar>y\<bar> \<le> A * B" by (intro mult_mono) simp_all
  then have p: "\<bar>x * y\<bar> \<le> A * B" by (simp add: abs_mult)
  then have "timesN u v = Fin (underflow (x * y))"
    unfolding x y using assms(3) by (intro timesN_Fin) linarith
  moreover have "\<bar>underflow (x * y)\<bar> \<le> A * B"
    using underflow_abs [of "x * y"] p by linarith
  ultimately show ?thesis by (simp add: finIn_Fin abs_le_iff)
qed

lemma timesN_nonneg:
  assumes "finIn 0 A u" "finIn 0 B v" "A * B \<le> 2 ^ 100"
  shows "finIn 0 (A * B) (timesN u v)"
proof -
  obtain x where x: "u = Fin x" "0 \<le> x" "x \<le> A" using assms(1) by (rule finInE)
  obtain y where y: "v = Fin y" "0 \<le> y" "y \<le> B" using assms(2) by (rule finInE)
  have p: "0 \<le> x * y" "x * y \<le> A * B" using x y by (simp_all add: mult_mono)
  then have "timesN u v = Fin (underflow (x * y))"
    unfolding x y using assms(3) by (intro timesN_Fin) simp
  moreover have "0 \<le> underflow (x * y)" "underflow (x * y) \<le> A * B"
    using underflow_nonneg [OF p(1)] p(2) by simp_all
  ultimately show ?thesis by (simp add: finIn_Fin)
qed

lemma divideN_Fin:
  "y \<noteq> 0 \<Longrightarrow> \<bar>x / y\<bar> \<le> 2 ^ 100 \<Longrightarrow> divideN (Fin x) (Fin y) = Fin (underflow (x / y))"
  by (simp add: rangeOf_small)

lemma divideN_abs:
  assumes "finIn (- A) A u" "1 \<le> d" "A \<le> 2 ^ 100"
  shows "finIn (- A) A (divideN u (Fin d))"
proof -
  obtain x where x: "u = Fin x" "- A \<le> x" "x \<le> A" using assms(1) by (rule finInE)
  have "\<bar>x\<bar> \<le> A" using x by (simp add: abs_le_iff)
  moreover have "\<bar>x / d\<bar> \<le> \<bar>x\<bar>"
    using assms(2) by (simp add: divide_le_eq mult_le_cancel_left1)
  ultimately have q: "\<bar>x / d\<bar> \<le> A" by linarith
  then have "divideN u (Fin d) = Fin (underflow (x / d))"
    unfolding x using assms(2,3) by (intro divideN_Fin) simp_all
  moreover have "\<bar>underflow (x / d)\<bar> \<le> A" using underflow_abs [of "x / d"] q by linarith
  ultimately show ?thesis by (simp add: finIn_Fin abs_le_iff)
qed

lemma divideN_nonneg:
  assumes "finIn 0 A u" "1 \<le> d" "A \<le> 2 ^ 100"
  shows "finIn 0 A (divideN u (Fin d))"
proof -
  obtain x where x: "u = Fin x" "0 \<le> x" "x \<le> A" using assms(1) by (rule finInE)
  have q: "0 \<le> x / d" using x assms(2) by simp
  have "x / d \<le> x" using x assms(2) by (simp add: divide_le_eq mult_le_cancel_left1)
  then have q2: "x / d \<le> A" using x by linarith
  have "divideN u (Fin d) = Fin (underflow (x / d))"
    unfolding x using assms(2,3) q q2 by (intro divideN_Fin) simp_all
  moreover have "0 \<le> underflow (x / d)" "underflow (x / d) \<le> A"
    using underflow_nonneg [OF q] q2 by simp_all
  ultimately show ?thesis by (simp add: finIn_Fin)
qed

lemma absN_fin: "finIn (- A) A u \<Longrightarrow> finIn 0 A (absN u)"
  by (cases u) (simp_all add: finIn_def abs_le_iff)

lemma foldl_plusN_fin:
  assumes "\<And>p. p \<in> set ps \<Longrightarrow> finIn lo hi (g p)" and "lo \<le> 0" "0 \<le> hi"
    and "finIn A B acc"
    and "- (2 ^ 100) \<le> A + real (length ps) * lo" "B + real (length ps) * hi \<le> 2 ^ 100"
  shows "finIn (A + real (length ps) * lo) (B + real (length ps) * hi)
           (foldl (\<lambda>s p. plusN s (g p)) acc ps)"
  using assms
proof (induction ps arbitrary: acc A B)
  case Nil
  then show ?case by simp
next
  case (Cons p ps)
  have n: "0 \<le> real (length ps)" by simp
  have l: "real (length ps) * lo \<le> 0" using Cons.prems(2) n by (simp add: mult_nonneg_nonpos)
  have h: "0 \<le> real (length ps) * hi" using Cons.prems(3) n by simp
  have gp: "finIn lo hi (g p)" using Cons.prems(1) by simp
  have step: "finIn (A + lo) (B + hi) (plusN acc (g p))"
  proof (rule plusN_fin [OF Cons.prems(4) gp])
    show "- (2 ^ 100) \<le> A + lo" using Cons.prems(5) l by (simp add: algebra_simps)
    show "B + hi \<le> 2 ^ 100" using Cons.prems(6) h by (simp add: algebra_simps)
  qed
  have "finIn (A + lo + real (length ps) * lo) (B + hi + real (length ps) * hi)
          (foldl (\<lambda>s p. plusN s (g p)) (plusN acc (g p)) ps)"
  proof (rule Cons.IH [OF _ Cons.prems(2,3) step])
    show "\<And>q. q \<in> set ps \<Longrightarrow> finIn lo hi (g q)" using Cons.prems(1) by simp
    show "- (2 ^ 100) \<le> A + lo + real (length ps) * lo"
      using Cons.prems(5) by (simp add: algebra_simps)
    show "B + hi + real (length ps) * hi \<le> 2 ^ 100"
      using Cons.prems(6) by (simp add: algebra_simps)
  qed
  then show ?case by (simp add: algebra_simps)
qed

lemma foldl_Math_max_fin:
  "finIn a b acc \<Longrightarrow> (\<And>x. x \<in> set xs \<Longrightarrow> finIn a b x) \<Longrightarrow> finIn a b (foldl Math_max acc xs)"
proof (induction xs arbitrary: acc)
  case Nil
  then show ?case by simp
next
  case (Cons x xs)
  obtain m where m: "acc = Fin m" "a \<le> m" "m \<le> b" using Cons.prems(1) by (rule finInE)
  obtain y where y: "x = Fin y" "a \<le> y" "y \<le> b" using Cons.prems(2) [of x] by (auto elim: finInE)
  have "finIn a b (Math_max acc x)" using m y by (simp add: Math_max_def finIn_Fin)
  then show ?case using Cons.IH Cons.prems(2) by simp
qed

lemma foldl_Math_min_fin:
  "finIn a b acc \<Longrightarrow> (\<And>x. x \<in> set xs \<Longrightarrow> finIn a b x) \<Longrightarrow> finIn a b (foldl Math_min acc xs)"
proof (induction xs arbitrary: acc)
  case Nil
  then show ?case by simp
next
  case (Cons x xs)
  obtain m where m: "acc = Fin m" "a \<le> m" "m \<le> b" using Cons.prems(1) by (rule finInE)
  obtain y where y: "x = Fin y" "a \<le> y" "y \<le> b" using Cons.prems(2) [of x] by (auto elim: finInE)
  have "finIn a b (Math_min acc x)" using m y by (simp add: Math_min_def finIn_Fin)
  then show ?case using Cons.IH Cons.prems(2) by simp
qed

lemma maxOf_fin:
  assumes "xs \<noteq> []" "\<And>x. x \<in> set xs \<Longrightarrow> finIn a b x"
  shows "finIn a b (maxOf xs)"
proof -
  obtain x rest where xs: "xs = x # rest" using assms(1) by (cases xs) auto
  obtain y where y: "x = Fin y" "a \<le> y" "y \<le> b" using assms(2) [of x] xs by (auto elim: finInE)
  have "Math_max NegInf x = x" by (simp add: Math_max_def y)
  then have "maxOf xs = foldl Math_max x rest" by (simp add: maxOf_def xs)
  then show ?thesis using foldl_Math_max_fin [of a b x rest] assms(2) xs by simp
qed

lemma minOf_fin:
  assumes "xs \<noteq> []" "\<And>x. x \<in> set xs \<Longrightarrow> finIn a b x"
  shows "finIn a b (minOf xs)"
proof -
  obtain x rest where xs: "xs = x # rest" using assms(1) by (cases xs) auto
  obtain y where y: "x = Fin y" "a \<le> y" "y \<le> b" using assms(2) [of x] xs by (auto elim: finInE)
  have "Math_min PosInf x = x" by (simp add: Math_min_def y)
  then have "minOf xs = foldl Math_min x rest" by (simp add: minOf_def xs)
  then show ?thesis using foldl_Math_min_fin [of a b x rest] assms(2) xs by simp
qed

lemma clamp_number:
  assumes "v \<noteq> NaN" "lo \<le> hi"
  shows "finIn lo hi (Math_max (Fin lo) (Math_min (Fin hi) v))"
  using assms by (cases v) (auto simp: Math_max_def Math_min_def finIn_def)

lemma plusN_not_NaN: "v \<noteq> NaN \<Longrightarrow> plusN (Fin x) v \<noteq> NaN \<and> plusN v (Fin x) \<noteq> NaN"
  by (cases v) (simp_all add: overflow_def)

section \<open>The control points of a smoothed tone curve\<close>

lemma length_bound: "n < (2::nat) ^ 32 \<Longrightarrow> real n * 2048 \<le> 2 ^ 50 \<and> real n * real n \<le> 2 ^ 64"
proof -
  assume "n < (2::nat) ^ 32"
  then have "real n \<le> real ((2::nat) ^ 32)" by (simp only: of_nat_le_iff less_imp_le)
  then have n: "real n \<le> 2 ^ 32" by simp
  have "real n * real n \<le> 2 ^ 32 * 2 ^ 32" using n by (intro mult_mono) simp_all
  moreover have "real n * 2048 \<le> 2 ^ 32 * 2048" using n by simp
  ultimately show ?thesis by simp
qed

lemma small_bound: "(2::real) ^ 64 \<le> 2 ^ 100 \<and> (2::real) ^ 50 \<le> 2 ^ 100"
  by simp

lemma sum_inputs_fin:
  assumes "list_all boundedPoint points" "length points < 2 ^ 32"
  shows "finIn 0 (real (length points) * 255)
           (foldl (\<lambda>sum p. plusN sum (tp_input p)) (Fin 0) points)"
proof -
  have n: "real (length points) * 2048 \<le> 2 ^ 50" using length_bound [OF assms(2)] by simp
  have "finIn (0 + real (length points) * 0) (0 + real (length points) * 255)
          (foldl (\<lambda>sum p. plusN sum (tp_input p)) (Fin 0) points)"
  proof (rule foldl_plusN_fin)
    show "\<And>p. p \<in> set points \<Longrightarrow> finIn 0 255 (tp_input p)"
      using assms(1) by (simp add: list_all_iff boundedPoint_def)
    show "finIn 0 0 (Fin 0)" by (simp add: finIn_Fin)
    show "0 + real (length points) * 255 \<le> 2 ^ 100" using n small_bound by linarith
  qed simp_all
  then show ?thesis by simp
qed

lemma sCurveStrength_fin:
  assumes "points \<noteq> []" "list_all boundedPoint points" "length points < 2 ^ 32"
  shows "finIn (2 / 10) (8 / 10) (sCurveStrength points)"
proof -
  define n where "n = real (length points)"
  have n1: "1 \<le> n" using assms(1) by (cases points) (simp_all add: n_def)
  have nb: "n * 2048 \<le> 2 ^ 50" "n * n \<le> 2 ^ 64"
    using length_bound [OF assms(3)] by (simp_all add: n_def)
  have b100: "(2::real) ^ 64 \<le> 2 ^ 100" "(2::real) ^ 50 \<le> 2 ^ 100" by simp_all
  have inp: "\<And>p. p \<in> set points \<Longrightarrow> finIn 0 255 (tp_input p)"
    using assms(2) by (simp add: list_all_iff boundedPoint_def)
  define meanBrightness where
    "meanBrightness = divideN (foldl (\<lambda>sum p. plusN sum (tp_input p)) (Fin 0) points) (Fin n)"
  have mb: "finIn 0 (n * 255) meanBrightness"
    unfolding meanBrightness_def
    using sum_inputs_fin [OF assms(2,3)] n1 nb b100 by (intro divideN_nonneg) (simp_all add: n_def)
  have dev: "finIn 0 (n * 255 + 255) (absN (minusN (tp_input p) meanBrightness))"
    if "p \<in> set points" for p
  proof -
    have "finIn (0 - n * 255) (255 - 0) (minusN (tp_input p) meanBrightness)"
      using inp [OF that] mb nb b100 by (intro minusN_fin) simp_all
    then have "finIn (- (n * 255 + 255)) (n * 255 + 255) (minusN (tp_input p) meanBrightness)"
      by (rule finIn_mono) (use n1 in simp_all)
    then show ?thesis by (rule absN_fin)
  qed
  define devSum where
    "devSum = foldl (\<lambda>sum p. plusN sum (absN (minusN (tp_input p) meanBrightness))) (Fin 0) points"
  have nn: "n * (n * 255 + 255) \<le> 2 ^ 100"
  proof -
    have "n * (n * 255 + 255) = 255 * (n * n) + 255 * n" by (simp add: algebra_simps)
    also have "\<dots> \<le> 255 * 2 ^ 64 + 2 ^ 50" using nb by simp
    also have "\<dots> \<le> 2 ^ 100" by simp
    finally show ?thesis .
  qed
  have "finIn (0 + real (length points) * 0) (0 + real (length points) * (n * 255 + 255)) devSum"
    unfolding devSum_def
  proof (rule foldl_plusN_fin)
    show "\<And>p. p \<in> set points \<Longrightarrow> finIn 0 (n * 255 + 255) (absN (minusN (tp_input p) meanBrightness))"
      by (rule dev)
    show "finIn 0 0 (Fin 0)" by (simp add: finIn_Fin)
    show "0 \<le> n * 255 + 255" using n1 by simp
    show "0 + real (length points) * (n * 255 + 255) \<le> 2 ^ 100" using nn by (simp add: n_def)
  qed simp_all
  then have ds: "finIn 0 (n * (n * 255 + 255)) devSum" by (simp add: n_def)
  define contrastFactor where "contrastFactor = divideN devSum (Fin n)"
  have cf: "finIn 0 (n * (n * 255 + 255)) contrastFactor"
    unfolding contrastFactor_def using ds n1 nn by (rule divideN_nonneg)
  have c1: "finIn 0 (n * (n * 255 + 255)) (divideN contrastFactor (Fin 128))"
    using cf _ nn by (rule divideN_nonneg) simp
  have nn5: "n * (n * 255 + 255) * (2 / 10) \<le> 2 ^ 99"
  proof -
    have "(2::real) ^ 100 = 2 * 2 ^ 99" by simp
    then have "n * (n * 255 + 255) \<le> 2 * 2 ^ 99" using nn by simp
    then show ?thesis by simp
  qed
  have b99: "(2::real) ^ 99 \<le> 2 ^ 100" "(1024::real) \<le> 2 ^ 99" by simp_all
  have "finIn 0 (n * (n * 255 + 255) * (2 / 10)) (timesN (divideN contrastFactor (Fin 128)) (Fin (2 / 10)))"
    using c1 proof (rule timesN_nonneg)
    show "finIn 0 (2 / 10) (Fin (2 / 10))" by (simp add: finIn_Fin)
    show "n * (n * 255 + 255) * (2 / 10) \<le> 2 ^ 100" using nn5 b99 by linarith
  qed
  then have c2: "finIn 0 (2 ^ 99) (timesN (divideN contrastFactor (Fin 128)) (Fin (2 / 10)))"
    by (rule finIn_mono) (use nn5 in simp_all)
  have c3: "finIn (4 / 10 + 0) (4 / 10 + 2 ^ 99)
              (plusN (Fin (4 / 10)) (timesN (divideN contrastFactor (Fin 128)) (Fin (2 / 10))))"
    using _ c2 proof (rule plusN_fin)
    show "finIn (4 / 10) (4 / 10) (Fin (4 / 10))" by (simp add: finIn_Fin)
    show "- (2 ^ 100) \<le> (4 / 10 + 0 :: real)" by simp
    have "(2::real) ^ 100 = 2 * 2 ^ 99" by simp
    then show "(4 / 10 + 2 ^ 99 :: real) \<le> 2 ^ 100" using b99 by linarith
  qed
  define dynamicRange where
    "dynamicRange = minusN (maxOf (map tp_input points)) (minOf (map tp_input points))"
  have mx: "finIn 0 255 (maxOf (map tp_input points))"
    using assms(1) inp by (intro maxOf_fin) auto
  have mn: "finIn 0 255 (minOf (map tp_input points))"
    using assms(1) inp by (intro minOf_fin) auto
  have "finIn (0 - 255) (255 - 0) dynamicRange"
    unfolding dynamicRange_def using mx mn by (rule minusN_fin) simp_all
  then have dr: "finIn (- 255) 255 dynamicRange" by simp
  have d1: "finIn (- 255) 255 (divideN dynamicRange (Fin 255))"
    using dr by (rule divideN_abs) simp_all
  have "finIn (1 - 255) (1 - (- 255)) (minusN (Fin 1) (divideN dynamicRange (Fin 255)))"
    using _ d1 by (rule minusN_fin) (simp_all add: finIn_Fin)
  then have d2: "finIn (- 256) 256 (minusN (Fin 1) (divideN dynamicRange (Fin 255)))"
    by (rule finIn_mono) simp_all
  have "finIn (- (256 * (2 / 10))) (256 * (2 / 10))
          (timesN (minusN (Fin 1) (divideN dynamicRange (Fin 255))) (Fin (2 / 10)))"
    using d2 by (rule timesN_abs) (simp_all add: finIn_Fin)
  then have d3: "finIn (- 256) 256 (timesN (minusN (Fin 1) (divideN dynamicRange (Fin 255))) (Fin (2 / 10)))"
    by (rule finIn_mono) simp_all
  have "finIn (4 / 10 + 0 + - 256) (4 / 10 + 2 ^ 99 + 256)
          (plusN (plusN (Fin (4 / 10)) (timesN (divideN contrastFactor (Fin 128)) (Fin (2 / 10))))
             (timesN (minusN (Fin 1) (divideN dynamicRange (Fin 255))) (Fin (2 / 10))))"
    using c3 d3 proof (rule plusN_fin)
    show "- (2 ^ 100) \<le> (4 / 10 + 0 + - 256 :: real)" by simp
    have "(2::real) ^ 100 = 2 * 2 ^ 99" by simp
    then show "(4 / 10 + 2 ^ 99 + 256 :: real) \<le> 2 ^ 100" using b99 by linarith
  qed
  then obtain z where z:
    "plusN (plusN (Fin (4 / 10)) (timesN (divideN contrastFactor (Fin 128)) (Fin (2 / 10))))
       (timesN (minusN (Fin 1) (divideN dynamicRange (Fin 255))) (Fin (2 / 10))) = Fin z"
    by (auto elim: finInE)
  have "sCurveStrength points = Math_min (Fin (8 / 10)) (Math_max (Fin (2 / 10)) (Fin z))"
    unfolding sCurveStrength_def Let_def
    using z by (simp add: n_def meanBrightness_def devSum_def contrastFactor_def dynamicRange_def)
  then show ?thesis by (simp add: Math_min_def Math_max_def finIn_Fin)
qed

lemma numPoints_int:
  assumes "points \<noteq> []" "list_all boundedPoint points" "length points < 2 ^ 32"
  shows "\<exists>k::int. 5 \<le> k \<and> k \<le> 20 \<and> numPoints points = Fin (of_int k)"
proof -
  define n where "n = real (length points)"
  have n1: "1 \<le> n" using assms(1) by (cases points) (simp_all add: n_def)
  have nb: "n * 2048 \<le> 2 ^ 50" "n * n \<le> 2 ^ 64"
    using length_bound [OF assms(3)] by (simp_all add: n_def)
  have b100: "(2::real) ^ 64 \<le> 2 ^ 100" "(2::real) ^ 50 \<le> 2 ^ 100" by simp_all
  define totalWeight where
    "totalWeight = foldl (\<lambda>sum point. plusN sum (tp_weight point)) (Fin 0) points"
  define m where "m = real (length (filter (\<lambda>point. gtN (tp_weight point) (Fin 0.1)) points))"
  have "finIn (0 + real (length points) * 0) (0 + real (length points) * 1) totalWeight"
    unfolding totalWeight_def
  proof (rule foldl_plusN_fin)
    show "\<And>p. p \<in> set points \<Longrightarrow> finIn 0 1 (tp_weight p)"
      using assms(2) by (simp add: list_all_iff boundedPoint_def)
    show "finIn 0 0 (Fin 0)" by (simp add: finIn_Fin)
    show "0 + real (length points) * 1 \<le> 2 ^ 100" using nb n1 b100 by (simp add: n_def)
  qed simp_all
  then have tw: "finIn 0 n totalWeight" by (simp add: n_def)
  have "length (filter (\<lambda>point. gtN (tp_weight point) (Fin 0.1)) points) \<le> length points"
    by (rule length_filter_le)
  then have m: "finIn 0 n (Fin m)" by (simp add: m_def n_def finIn_Fin)
  have p: "finIn 0 (n * n) (timesN (Fin m) totalWeight)"
    using m tw by (rule timesN_nonneg) (use nb b100 in linarith)
  have "finIn 0 (n * n) (divideN (timesN (Fin m) totalWeight) (Fin n))"
    using p n1 by (rule divideN_nonneg) (use nb b100 in linarith)
  then obtain q where q: "divideN (timesN (Fin m) totalWeight) (Fin n) = Fin q" "0 \<le> q"
    by (auto elim: finInE)
  define c where "c = min q 3"
  have c: "0 \<le> c" "c \<le> 3" using q(2) by (simp_all add: c_def)
  have cf: "Math_min (Fin q) (Fin 3) = Fin c" by (simp add: Math_min_def c_def min_def)
  have "\<bar>c * 5\<bar> \<le> 2 ^ 100" using c by (simp add: abs_le_iff)
  then have t: "timesN (Fin c) (Fin 5) = Fin (underflow (c * 5))" by (rule timesN_Fin)
  define u where "u = underflow (c * 5)"
  have u: "0 \<le> u" "u \<le> 15" using underflow_nonneg [of "c * 5"] c by (simp_all add: u_def)
  have "\<bar>5 + u\<bar> \<le> 2 ^ 100" using u by (simp add: abs_le_iff)
  then have s: "plusN (Fin 5) (Fin u) = Fin (5 + u)" by (simp add: overflow_small)
  define k where "k = \<lfloor>5 + u + 1 / 2\<rfloor>"
  have k5: "5 \<le> k" unfolding k_def using u by (simp add: le_floor_iff)
  have "5 + u + 1 / 2 < 21" using u by simp
  then have "k < 21" unfolding k_def by (simp add: floor_less_iff)
  then have k20: "k \<le> 20" by simp
  have r: "roundN (Fin (5 + u)) = Fin (of_int k)" by (simp add: Math_round_def k_def)
  have "numPoints points =
          Math_min (Fin 20)
            (Math_max (Fin 5)
               (roundN (plusN (Fin 5)
                  (timesN (Math_min (divideN (timesN (Fin m) totalWeight) (Fin n)) (Fin 3))
                     (Fin 5)))))"
    by (simp only: numPoints_def Let_def totalWeight_def m_def n_def)
  also have "\<dots> = Math_min (Fin 20) (Math_max (Fin 5) (Fin (of_int k)))"
    by (simp only: q(1) cf t u_def [symmetric] s r)
  also have "\<dots> = Fin (of_int k)" using k5 k20 by (simp add: Math_min_def Math_max_def)
  finally show ?thesis using k5 k20 by blast
qed

lemma shoulder_output:
  assumes "finIn (- 255) 319 pos" "finIn 0 255 x" "finIn (- 255) 510 y"
  shows "finIn (- 1024) 1024 (plusN pos (timesN (minusN y x) (Fin (5 / 10))))"
proof -
  have "finIn (- 255 - 255) (510 - 0) (minusN y x)"
    using assms(3,2) by (rule minusN_fin) simp_all
  then have "finIn (- 510) 510 (minusN y x)" by simp
  then have "finIn (- (510 * (5 / 10))) (510 * (5 / 10)) (timesN (minusN y x) (Fin (5 / 10)))"
    by (rule timesN_abs) (simp_all add: finIn_Fin)
  then have h: "finIn (- 255) 255 (timesN (minusN y x) (Fin (5 / 10)))" by simp
  have "finIn (- 255 + - 255) (319 + 255) (plusN pos (timesN (minusN y x) (Fin (5 / 10))))"
    using assms(1) h by (rule plusN_fin) simp_all
  then show ?thesis by (rule finIn_mono) simp_all
qed

lemma shoulderPoint_wide:
  assumes "boundedPoint p" "q \<in> set (shoulderPoint p)"
  shows "widePoint q"
proof -
  have x: "finIn 0 255 (tp_input p)" and y: "finIn (- 255) 510 (tp_output p)"
    and w: "finIn 0 1 (tp_weight p)"
    using assms(1) by (simp_all add: boundedPoint_def)
  have "finIn 0 (1 * (5 / 10)) (timesN (tp_weight p) (Fin (5 / 10)))"
    using w by (rule timesN_nonneg) (simp_all add: finIn_Fin)
  then have hw: "finIn 0 1 (timesN (tp_weight p) (Fin (5 / 10)))"
    by (rule finIn_mono) simp_all
  have "finIn 0 (1 * 64) (timesN (tp_weight p) (Fin 64))"
    using w by (rule timesN_nonneg) (simp_all add: finIn_Fin)
  then have w64: "finIn 0 64 (timesN (tp_weight p) (Fin 64))" by simp
  have "finIn (0 + 0) (255 + 64) (plusN (tp_input p) (timesN (tp_weight p) (Fin 64)))"
    using x w64 by (rule plusN_fin) simp_all
  then have lo: "finIn (- 255) 319 (plusN (tp_input p) (timesN (tp_weight p) (Fin 64)))"
    by (rule finIn_mono) simp_all
  have "finIn (255 - 255) (255 - 0) (minusN (Fin 255) (tp_input p))"
    using _ x by (rule minusN_fin) (simp_all add: finIn_Fin)
  then have "finIn 0 255 (minusN (Fin 255) (tp_input p))" by simp
  then have "finIn 0 (255 * 1) (timesN (minusN (Fin 255) (tp_input p)) (tp_weight p))"
    using w by (rule timesN_nonneg) simp
  then have r: "finIn 0 255 (timesN (minusN (Fin 255) (tp_input p)) (tp_weight p))" by simp
  have "finIn (0 - 255) (255 - 0)
          (minusN (tp_input p) (timesN (minusN (Fin 255) (tp_input p)) (tp_weight p)))"
    using x r by (rule minusN_fin) simp_all
  then have hi: "finIn (- 255) 319
          (minusN (tp_input p) (timesN (minusN (Fin 255) (tp_input p)) (tp_weight p)))"
    by (rule finIn_mono) simp_all
  have wide: "finIn (- 1024) 1024 v" if "finIn (- 255) 319 v" for v
    using that by (rule finIn_mono) simp_all
  consider (shadow) "ltN (tp_input p) (Fin 64)"
    | (highlight) "\<not> ltN (tp_input p) (Fin 64)" "gtN (tp_input p) (Fin 192)"
    | (neither) "\<not> ltN (tp_input p) (Fin 64)" "\<not> gtN (tp_input p) (Fin 192)"
    by blast
  then show ?thesis
  proof cases
    case shadow
    then have "q = \<lparr>tp_input = plusN (tp_input p) (timesN (tp_weight p) (Fin 64)),
                tp_output = plusN (plusN (tp_input p) (timesN (tp_weight p) (Fin 64)))
                              (timesN (minusN (tp_output p) (tp_input p)) (Fin (5 / 10))),
                tp_weight = timesN (tp_weight p) (Fin (5 / 10))\<rparr>"
      using assms(2) by (simp add: shoulderPoint_def Let_def)
    then show ?thesis
      using hw wide [OF lo] shoulder_output [OF lo x y] by (simp add: widePoint_def)
  next
    case highlight
    then have "q = \<lparr>tp_input = minusN (tp_input p)
                             (timesN (minusN (Fin 255) (tp_input p)) (tp_weight p)),
                tp_output = plusN (minusN (tp_input p)
                                     (timesN (minusN (Fin 255) (tp_input p)) (tp_weight p)))
                              (timesN (minusN (tp_output p) (tp_input p)) (Fin (5 / 10))),
                tp_weight = timesN (tp_weight p) (Fin (5 / 10))\<rparr>"
      using assms(2) by (simp add: shoulderPoint_def Let_def)
    then show ?thesis
      using hw wide [OF hi] shoulder_output [OF hi x y] by (simp add: widePoint_def)
  next
    case neither
    then show ?thesis using assms(2) by (simp add: shoulderPoint_def Let_def)
  qed
qed

lemma boundedPoint_wide: "boundedPoint p \<Longrightarrow> widePoint p"
proof -
  assume b: "boundedPoint p"
  have "finIn 0 255 (tp_input p)" using b by (simp add: boundedPoint_def)
  then have x: "finIn (- 1024) 1024 (tp_input p)" by (rule finIn_mono) simp_all
  have "finIn (- 255) 510 (tp_output p)" using b by (simp add: boundedPoint_def)
  then have y: "finIn (- 1024) 1024 (tp_output p)" by (rule finIn_mono) simp_all
  have "finIn 0 1 (tp_weight p)" using b by (simp add: boundedPoint_def)
  then show ?thesis using x y by (simp add: widePoint_def)
qed

lemma set_insertPoint: "set (insertPoint p qs) = insert p (set qs)"
  by (induction qs) auto

lemma set_sortByInput: "set (sortByInput ps) = set ps"
  unfolding sortByInput_def by (induction ps) (simp_all add: set_insertPoint)

lemma length_insertPoint: "length (insertPoint p qs) = Suc (length qs)"
  by (induction qs) simp_all

lemma length_sortByInput: "length (sortByInput ps) = length ps"
  unfolding sortByInput_def by (induction ps) (simp_all add: length_insertPoint)

lemma length_shoulders: "length (concat (map shoulderPoint ps)) \<le> length ps"
proof (induction ps)
  case Nil
  then show ?case by simp
next
  case (Cons p ps)
  have "length (shoulderPoint p) \<le> 1" by (simp add: shoulderPoint_def Let_def)
  then show ?case using Cons by simp
qed

lemma allPoints_wide:
  assumes "list_all boundedPoint points"
  shows "list_all widePoint (allPoints points) \<and> length (allPoints points) \<le> 2 * length points"
proof -
  have "widePoint q" if "q \<in> set (allPoints points)" for q
  proof -
    from that consider "q \<in> set points" | p where "p \<in> set points" "q \<in> set (shoulderPoint p)"
      by (auto simp: allPoints_def set_sortByInput)
    then show ?thesis
    proof cases
      case 1
      then show ?thesis using assms by (simp add: list_all_iff boundedPoint_wide)
    next
      case 2
      then show ?thesis using assms shoulderPoint_wide [of p q] by (simp add: list_all_iff)
    qed
  qed
  moreover have "length (allPoints points) \<le> 2 * length points"
    using length_shoulders [of points] by (simp add: allPoints_def length_sortByInput)
  ultimately show ?thesis by (simp add: list_all_iff)
qed

lemma plusN_abs:
  assumes "finIn (- A) A u" "finIn (- B) B v" "A + B \<le> 2 ^ 100"
  shows "finIn (- (A + B)) (A + B) (plusN u v)"
proof -
  have "finIn (- A + - B) (A + B) (plusN u v)"
    using assms(1,2) by (rule plusN_fin) (use assms(3) in simp_all)
  then show ?thesis by simp
qed

lemma minusN_abs:
  assumes "finIn (- A) A u" "finIn (- B) B v" "A + B \<le> 2 ^ 100"
  shows "finIn (- (A + B)) (A + B) (minusN u v)"
proof -
  have "finIn (- A - B) (A - - B) (minusN u v)"
    using assms(1,2) by (rule minusN_fin) (use assms(3) in simp_all)
  then show ?thesis by simp
qed

lemma finIn_abs: "finIn a b v \<Longrightarrow> - A \<le> a \<Longrightarrow> b \<le> A \<Longrightarrow> finIn (- A) A v"
  by (rule finIn_mono)

lemma rangeOf_pos: "1 / 255 \<le> r \<Longrightarrow> r \<le> 2 ^ 100 \<Longrightarrow> rangeOf r = Fin r"
  by (rule rangeOf_exact) simp_all

lemma rangeOf_mid: "1 / 255 \<le> r \<Longrightarrow> r \<le> 1000 \<Longrightarrow> rangeOf r = Fin r"
  by (rule rangeOf_pos) simp_all

lemma sigma_bounds:
  fixes k w :: real
  assumes "5 \<le> k" "k \<le> 20" "0 \<le> w" "w \<le> 2"
  shows "255 / 40 \<le> 255 / (k * 2)" "255 / (k * 2) \<le> 255 / 10"
    "255 / 40 \<le> 255 / (k * 2) * (1 + w)" "255 / (k * 2) * (1 + w) \<le> 255 / 10 * 3"
proof -
  show q1: "255 / 40 \<le> 255 / (k * 2)" using assms(1,2) by (simp add: le_divide_eq)
  show q2: "255 / (k * 2) \<le> 255 / 10" using assms(1,2) by (simp add: divide_le_eq)
  have pos: "0 \<le> 255 / (k * 2)" using assms(1) by simp
  have "255 / 40 * 1 \<le> 255 / (k * 2) * (1 + w)"
    using q1 pos assms(3) by (intro mult_mono) simp_all
  then show "255 / 40 \<le> 255 / (k * 2) * (1 + w)" by simp
  show "255 / (k * 2) * (1 + w) \<le> 255 / 10 * 3"
    using q2 pos assms(3,4) by (intro mult_mono) simp_all
qed

lemma sigma_exact:
  assumes "5 \<le> k" "k \<le> 20" "0 \<le> w" "w \<le> 2"
  shows "timesN (divideN (Fin 255) (timesN (Fin k) (Fin 2))) (plusN (Fin 1) (Fin w)) =
           Fin (255 / (k * 2) * (1 + w))"
proof -
  note q = sigma_bounds [OF assms]
  have "rangeOf (k * 2) = Fin (k * 2)" using assms(1,2) by (intro rangeOf_pos) simp_all
  then have a: "timesN (Fin k) (Fin 2) = Fin (k * 2)" by simp
  have "rangeOf (255 / (k * 2)) = Fin (255 / (k * 2))"
    using q(1,2) by (intro rangeOf_mid) linarith+
  then have b: "divideN (Fin 255) (Fin (k * 2)) = Fin (255 / (k * 2))"
    using assms(1) by simp
  have c: "plusN (Fin 1) (Fin w) = Fin (1 + w)"
    using assms(3,4) by (simp add: overflow_small abs_le_iff)
  have "rangeOf (255 / (k * 2) * (1 + w)) = Fin (255 / (k * 2) * (1 + w))"
    using q(3,4) by (intro rangeOf_mid) linarith+
  then have e: "timesN (Fin (255 / (k * 2))) (Fin (1 + w)) = Fin (255 / (k * 2) * (1 + w))"
    by simp
  show ?thesis by (simp only: a b c e)
qed

lemma sigma_square:
  assumes "255 / 40 \<le> s" "s \<le> 255 / 10 * 3"
  shows "timesN (timesN (Fin 2) (Fin s)) (Fin s) = Fin (2 * s * s) \<and> 1 \<le> 2 * s * s"
proof -
  have s: "1 \<le> s" "s \<le> 100" using assms by simp_all
  have "rangeOf (2 * s) = Fin (2 * s)" using s by (intro rangeOf_pos) simp_all
  then have a: "timesN (Fin 2) (Fin s) = Fin (2 * s)" by simp
  have "1 * 1 \<le> s * s" using s(1) by (intro mult_mono) simp_all
  then have lo: "1 \<le> 2 * s * s" by simp
  have "s * s \<le> 100 * 100" using s by (intro mult_mono) simp_all
  then have hi: "2 * s * s \<le> 2 ^ 100" by simp
  have "rangeOf (2 * s * s) = Fin (2 * s * s)"
    using lo hi by (intro rangeOf_pos) simp_all
  then have b: "timesN (Fin (2 * s)) (Fin s) = Fin (2 * s * s)" by simp
  show ?thesis by (simp only: a b lo simp_thms)
qed

lemma rangeOf_unit: "0 \<le> r \<Longrightarrow> r \<le> 1 \<Longrightarrow> rangeOf r = Fin (underflow r)"
proof (rule rangeOf_small)
  assume r: "0 \<le> r" "r \<le> 1"
  have "(1::real) \<le> 2 ^ 100" by simp
  then have "r \<le> 2 ^ 100" using r(2) by (rule order_trans [rotated])
  then show "\<bar>r\<bar> \<le> 2 ^ 100" using r(1) by (simp only: abs_of_nonneg)
qed

lemma expN_nonpos:
  assumes "a \<le> 0"
  shows "finIn 0 1 (expN (Fin a))"
proof -
  have e: "0 \<le> exp a" "exp a \<le> 1" using assms by simp_all
  then have r: "rangeOf (exp a) = Fin (underflow (exp a))" by (rule rangeOf_unit)
  have lo: "0 \<le> underflow (exp a)" using underflow_nonneg [OF e(1)] by blast
  have "underflow (exp a) \<le> exp a" using underflow_nonneg [OF e(1)] by blast
  then have hi: "underflow (exp a) \<le> 1" using e(2) by (rule order_trans)
  show ?thesis using lo hi by (simp add: r finIn_Fin)
qed

lemma influence_fin:
  assumes "5 \<le> k" "k \<le> 20" "finIn 0 255 position"
    and "finIn (- 1024) 1024 (tp_input point)" "finIn 0 2 (tp_weight point)"
  shows "finIn 0 1 (influence (Fin k) position point)"
proof -
  obtain w where w: "tp_weight point = Fin w" "0 \<le> w" "w \<le> 2"
    using assms(5) by (rule finInE)
  define s where "s = 255 / (k * 2) * (1 + w)"
  have s: "255 / 40 \<le> s" "s \<le> 255 / 10 * 3"
    unfolding s_def using sigma_bounds(3,4) [OF assms(1,2) w(2,3)] by blast+
  have sg: "timesN (divideN (Fin 255) (timesN (Fin k) (Fin 2))) (plusN (Fin 1) (tp_weight point)) = Fin s"
    unfolding w(1) s_def using assms(1,2) w(2,3) by (rule sigma_exact)
  have sq: "timesN (timesN (Fin 2) (Fin s)) (Fin s) = Fin (2 * s * s)" "1 \<le> 2 * s * s"
    using sigma_square [OF s] by simp_all
  have "finIn (- 255) 255 position" using assms(3) by (rule finIn_mono) simp_all
  then have "finIn (- (255 + 1024)) (255 + 1024) (minusN position (tp_input point))"
    using assms(4) by (rule minusN_abs) simp
  then have "finIn 0 (255 + 1024) (absN (minusN position (tp_input point)))"
    by (rule absN_fin)
  then obtain d where d: "absN (minusN position (tp_input point)) = Fin d" "0 \<le> d" "d \<le> 2048"
    by (auto elim!: finInE)
  have dd: "0 \<le> d * d" "d * d \<le> 2048 * 2048"
  proof -
    show "0 \<le> d * d" using d(2) by simp
    show "d * d \<le> 2048 * 2048" using d(2,3) by (intro mult_mono) simp_all
  qed
  have "\<bar>- d * d\<bar> \<le> 2 ^ 100" using dd by simp
  then have t: "timesN (Fin (- d)) (Fin d) = Fin (underflow (- d * d))"
    by (rule timesN_Fin)
  define v where "v = underflow (- d * d)"
  have v: "- (d * d) \<le> v" "v \<le> 0"
    using underflow_nonpos [of "- d * d"] dd(1) by (simp_all add: v_def)
  have "\<bar>v / (2 * s * s)\<bar> \<le> \<bar>v\<bar>"
    using sq(2) by (simp add: divide_le_eq mult_le_cancel_left1)
  then have "\<bar>v / (2 * s * s)\<bar> \<le> 2 ^ 100" using v dd(2) by simp
  moreover have "2 * s * s \<noteq> 0" using sq(2) by auto
  ultimately have dv: "divideN (Fin v) (Fin (2 * s * s)) = Fin (underflow (v / (2 * s * s)))"
    by (intro divideN_Fin)
  have "v / (2 * s * s) \<le> 0" using v(2) sq(2) by (simp add: divide_le_0_iff)
  then have a: "underflow (v / (2 * s * s)) \<le> 0" using underflow_nonpos by blast
  have "influence (Fin k) position point = expN (Fin (underflow (v / (2 * s * s))))"
    unfolding influence_def Let_def by (simp only: sg sq(1) d(1) negN.simps t v_def [symmetric] dv)
  then show ?thesis using expN_nonpos [OF a] by simp
qed

lemma influence_same:
  assumes "5 \<le> k" "k \<le> 20" "tp_input point = Fin 0" "finIn 0 2 (tp_weight point)"
  shows "influence (Fin k) (Fin 0) point = Fin 1"
proof -
  obtain w where w: "tp_weight point = Fin w" "0 \<le> w" "w \<le> 2"
    using assms(4) by (rule finInE)
  define s where "s = 255 / (k * 2) * (1 + w)"
  have s: "255 / 40 \<le> s" "s \<le> 255 / 10 * 3"
    unfolding s_def using sigma_bounds(3,4) [OF assms(1,2) w(2,3)] by blast+
  have sg: "timesN (divideN (Fin 255) (timesN (Fin k) (Fin 2))) (plusN (Fin 1) (tp_weight point)) = Fin s"
    unfolding w(1) s_def using assms(1,2) w(2,3) by (rule sigma_exact)
  have sq: "timesN (timesN (Fin 2) (Fin s)) (Fin s) = Fin (2 * s * s)" "1 \<le> 2 * s * s"
    using sigma_square [OF s] by simp_all
  have d: "absN (minusN (Fin 0) (tp_input point)) = Fin 0"
    by (simp add: assms(3) minusN_def overflow_small)
  have z: "rangeOf 0 = Fin 0" by (rule rangeOf_exact) simp_all
  have o: "rangeOf 1 = Fin 1" by (rule rangeOf_pos) simp_all
  have t: "timesN (negN (Fin 0)) (Fin 0) = Fin 0" by (simp add: z)
  have "2 * s * s \<noteq> 0" using sq(2) by auto
  then have dv: "divideN (Fin 0) (Fin (2 * s * s)) = Fin 0" by (simp add: z)
  have e: "expN (Fin 0) = Fin 1" by (simp add: o)
  show ?thesis unfolding influence_def Let_def by (simp only: sg sq(1) d t dv e)
qed

lemma accumulate_split:
  "foldl (\<lambda>(weightedSum, totalWeight) point.
            (let w = timesN (tp_weight point) (influence n position point)
             in (plusN weightedSum (timesN (minusN (tp_output point) (tp_input point)) w),
                 plusN totalWeight w)))
     (a, b) pts =
   (foldl (\<lambda>s point. plusN s (timesN (minusN (tp_output point) (tp_input point))
                                  (timesN (tp_weight point) (influence n position point)))) a pts,
    foldl (\<lambda>s point. plusN s (timesN (tp_weight point) (influence n position point))) b pts)"
  by (induction pts arbitrary: a b) (simp_all add: Let_def)

lemma accumulate_fin:
  assumes "5 \<le> k" "k \<le> 20" "finIn 0 255 position" "list_all widePoint pts"
    and "real (length pts) * 2048 \<le> 2 ^ 100"
  shows "\<exists>ws tw. accumulate (Fin k) position pts = (Fin ws, Fin tw)"
proof -
  define wt where "wt = (\<lambda>point. timesN (tp_weight point) (influence (Fin k) position point))"
  define tm where "tm = (\<lambda>point. timesN (minusN (tp_output point) (tp_input point)) (wt point))"
  have wide: "widePoint p" if "p \<in> set pts" for p
    using assms(4) that by (simp add: list_all_iff)
  have wt: "finIn 0 1 (wt p)" if "p \<in> set pts" for p
  proof -
    have p: "finIn (- 1024) 1024 (tp_input p)" "finIn 0 1 (tp_weight p)"
      using wide [OF that] by (simp_all add: widePoint_def)
    have "finIn 0 2 (tp_weight p)" using p(2) by (rule finIn_mono) simp_all
    then have "finIn 0 1 (influence (Fin k) position p)"
      using assms(1,2,3) p(1) by (intro influence_fin)
    then have "finIn 0 (1 * 1) (timesN (tp_weight p) (influence (Fin k) position p))"
      using p(2) by (intro timesN_nonneg) simp_all
    then show ?thesis by (simp add: wt_def)
  qed
  have tm: "finIn (- 2048) 2048 (tm p)" if "p \<in> set pts" for p
  proof -
    have p: "finIn (- 1024) 1024 (tp_input p)" "finIn (- 1024) 1024 (tp_output p)"
      using wide [OF that] by (simp_all add: widePoint_def)
    have "finIn (- (1024 + 1024)) (1024 + 1024) (minusN (tp_output p) (tp_input p))"
      using p(2,1) by (rule minusN_abs) simp
    then have d: "finIn (- 2048) 2048 (minusN (tp_output p) (tp_input p))" by simp
    have "finIn (- 1) 1 (wt p)" using wt [OF that] by (rule finIn_mono) simp_all
    with d have "finIn (- (2048 * 1)) (2048 * 1) (timesN (minusN (tp_output p) (tp_input p)) (wt p))"
      by (rule timesN_abs) simp
    then show ?thesis by (simp add: tm_def)
  qed
  have n: "real (length pts) \<le> 2 ^ 100"
  proof -
    have "real (length pts) * 1 \<le> real (length pts) * 2048" by (intro mult_left_mono) simp_all
    then show ?thesis using assms(5) by simp
  qed
  have "finIn (0 + real (length pts) * - 2048) (0 + real (length pts) * 2048)
          (foldl (\<lambda>s p. plusN s (tm p)) (Fin 0) pts)"
  proof (rule foldl_plusN_fin)
    show "\<And>p. p \<in> set pts \<Longrightarrow> finIn (- 2048) 2048 (tm p)" by (rule tm)
    show "finIn 0 0 (Fin 0)" by (simp add: finIn_Fin)
    show "- (2 ^ 100) \<le> 0 + real (length pts) * - 2048" using assms(5) by simp
    show "0 + real (length pts) * 2048 \<le> 2 ^ 100" using assms(5) by simp
  qed simp_all
  then obtain ws where ws: "foldl (\<lambda>s p. plusN s (tm p)) (Fin 0) pts = Fin ws"
    by (auto elim: finInE)
  have "finIn (0 + real (length pts) * 0) (0 + real (length pts) * 1)
          (foldl (\<lambda>s p. plusN s (wt p)) (Fin 0) pts)"
  proof (rule foldl_plusN_fin)
    show "\<And>p. p \<in> set pts \<Longrightarrow> finIn 0 1 (wt p)" by (rule wt)
    show "finIn 0 0 (Fin 0)" by (simp add: finIn_Fin)
    show "0 + real (length pts) * 1 \<le> 2 ^ 100" using n by simp
  qed simp_all
  then obtain tw where tw: "foldl (\<lambda>s p. plusN s (wt p)) (Fin 0) pts = Fin tw"
    by (auto elim: finInE)
  have "accumulate (Fin k) position pts = (Fin ws, Fin tw)"
    unfolding accumulate_def accumulate_split using ws tw by (simp add: tm_def wt_def)
  then show ?thesis by blast
qed

lemma Math_round_clamped:
  assumes "0 \<le> x" "x \<le> 255"
  shows "0 \<le> Math_round x \<and> Math_round x \<le> 255"
proof -
  have "0 \<le> \<lfloor>x + 1 / 2\<rfloor>" using assms(1) by simp
  moreover have "\<lfloor>x + 1 / 2\<rfloor> \<le> 255"
  proof -
    have "x + 1 / 2 < 256" using assms(2) by simp
    then have "\<lfloor>x + 1 / 2\<rfloor> < 256" by (simp add: floor_less_iff)
    then show ?thesis by simp
  qed
  ultimately show ?thesis by (simp add: Math_round_def)
qed

lemma Math_round_strict:
  assumes "x + 1 \<le> y"
  shows "Math_round x < Math_round y"
proof -
  have a: "real_of_int \<lfloor>x + 1 / 2\<rfloor> \<le> x + 1 / 2" by (rule of_int_floor_le)
  have "real_of_int (\<lfloor>x + 1 / 2\<rfloor> + 1) = real_of_int \<lfloor>x + 1 / 2\<rfloor> + 1" by simp
  with a assms have "real_of_int (\<lfloor>x + 1 / 2\<rfloor> + 1) \<le> y + 1 / 2" by linarith
  then have "\<lfloor>x + 1 / 2\<rfloor> + 1 \<le> \<lfloor>y + 1 / 2\<rfloor>" by (simp only: le_floor_iff)
  then show ?thesis by (simp add: Math_round_def)
qed

lemma position_step:
  assumes "5 \<le> N" "N \<le> 20" "i < j"
  shows "(real i / (real N - 1)) * 255 + 1 \<le> (real j / (real N - 1)) * 255"
proof -
  have d: "0 < real N - 1" "real N - 1 \<le> 19" using assms(1,2) by simp_all
  have "real i + 1 \<le> real j" using assms(3) by simp
  then have "real i * 255 + 255 \<le> real j * 255" by simp
  then have "(real i * 255 + (real N - 1)) \<le> real j * 255" using d(2) by linarith
  then have "(real i * 255 + (real N - 1)) / (real N - 1) \<le> real j * 255 / (real N - 1)"
    using d(1) by (simp add: divide_right_mono)
  then show ?thesis using d(1) by (simp add: add_divide_distrib)
qed

lemma position_exact:
  assumes "5 \<le> N" "N \<le> 20" "i < N"
  shows "timesN (divideN (Fin (real i)) (minusN (Fin (real N)) (Fin 1))) (Fin 255) =
           Fin (real i / (real N - 1) * 255) \<and>
         divideN (Fin (real i / (real N - 1) * 255)) (Fin 255) = Fin (real i / (real N - 1)) \<and>
         0 \<le> real i / (real N - 1) \<and> real i / (real N - 1) \<le> 1"
proof -
  define r where "r = real i / (real N - 1)"
  have d: "0 < real N - 1" "real N - 1 \<le> 19" using assms(1,2) by simp_all
  have "\<bar>real N + - 1\<bar> \<le> 2 ^ 100" using assms(1,2) by simp
  then have "overflow (real N + - 1) = Fin (real N + - 1)" by (rule overflow_small)
  then have m: "minusN (Fin (real N)) (Fin 1) = Fin (real N - 1)" by (simp add: minusN_def)
  have "i \<le> N - 1" using assms(3) by simp
  then have "real i \<le> real (N - 1)" by (simp only: of_nat_le_iff)
  then have iN: "real i \<le> real N - 1" using assms(1) by (simp add: of_nat_diff)
  have r0: "0 \<le> r" using d(1) by (simp add: r_def)
  have r1: "r \<le> 1" using d(1) iN by (simp add: r_def divide_le_eq)
  have small: "r = 0 \<or> 1 / 255 \<le> r"
  proof (cases "i = 0")
    case True
    then show ?thesis by (simp add: r_def)
  next
    case False
    then have "1 \<le> real i" by simp
    then have "1 / (real N - 1) \<le> r"
      unfolding r_def using d(1) by (intro divide_right_mono) simp_all
    moreover have "1 / 19 \<le> 1 / (real N - 1)"
      using d by (simp add: le_divide_eq)
    ultimately show ?thesis by simp
  qed
  have "rangeOf r = Fin r"
  proof (rule rangeOf_exact)
    show "r = 0 \<or> 1 / 255 \<le> \<bar>r\<bar>" using small r0 by (simp only: abs_of_nonneg)
    show "\<bar>r\<bar> \<le> 2 ^ 100" using r0 r1 by simp
  qed
  then have q: "divideN (Fin (real i)) (Fin (real N - 1)) = Fin r"
    using d(1) by (simp add: r_def)
  have "rangeOf (r * 255) = Fin (r * 255)"
  proof (rule rangeOf_exact)
    show "r * 255 = 0 \<or> 1 / 255 \<le> \<bar>r * 255\<bar>" using small r0 by auto
    show "\<bar>r * 255\<bar> \<le> 2 ^ 100" using r0 r1 by simp
  qed
  then have p: "timesN (Fin r) (Fin 255) = Fin (r * 255)" by simp
  have "rangeOf (r * 255 / 255) = Fin r" using \<open>rangeOf r = Fin r\<close> by simp
  then have np: "divideN (Fin (r * 255)) (Fin 255) = Fin r" by simp
  show ?thesis unfolding r_def [symmetric] by (simp only: m q p np r0 r1 simp_thms)
qed

lemma sCurve_term_fin:
  assumes "0 \<le> r" "r \<le> 1" "finIn (2 / 10) (8 / 10) strength"
  shows "\<exists>c. timesN (timesN (minusN
                (plusN (timesN (Fin r) (minusN (Fin 1)
                          (timesN (timesN (Fin 4) (Fin r)) (minusN (Fin 1) (Fin r)))))
                   (timesN (plusN (Fin r) (timesN strength (sinN (timesN (Fin pi) (Fin r)))))
                      (timesN (timesN (Fin 4) (Fin r)) (minusN (Fin 1) (Fin r)))))
                (Fin r)) (Fin 255)) (Fin (1 / 10)) = Fin c"
proof -
  have np: "finIn (- 1) 1 (Fin r)" using assms(1,2) by (simp add: finIn_Fin)
  have one: "finIn (- 1) 1 (Fin 1)" by (simp add: finIn_Fin)
  have "\<bar>pi * r\<bar> \<le> 4 * 1"
    unfolding abs_mult using pi_less_4 assms(1,2) by (intro mult_mono) simp_all
  then have "\<bar>pi * r\<bar> \<le> 2 ^ 100" by simp
  then have "timesN (Fin pi) (Fin r) = Fin (underflow (pi * r))" by (rule timesN_Fin)
  then have sn: "finIn (- 1) 1 (sinN (timesN (Fin pi) (Fin r)))" by (simp add: finIn_Fin)
  have "finIn (- 1) 1 strength" using assms(3) by (rule finIn_mono) simp_all
  then have "finIn (- (1 * 1)) (1 * 1) (timesN strength (sinN (timesN (Fin pi) (Fin r))))"
    using sn by (rule timesN_abs) simp
  then have "finIn (- 1) 1 (timesN strength (sinN (timesN (Fin pi) (Fin r))))" by simp
  with np have "finIn (- (1 + 1)) (1 + 1)
                  (plusN (Fin r) (timesN strength (sinN (timesN (Fin pi) (Fin r)))))"
    by (rule plusN_abs) simp
  then have sc: "finIn (- 2) 2 (plusN (Fin r) (timesN strength (sinN (timesN (Fin pi) (Fin r)))))"
    by simp
  have "finIn (- (4 * 1)) (4 * 1) (timesN (Fin 4) (Fin r))"
    using _ np by (rule timesN_abs) (simp_all add: finIn_Fin)
  then have f4: "finIn (- 4) 4 (timesN (Fin 4) (Fin r))" by simp
  have "finIn (- (1 + 1)) (1 + 1) (minusN (Fin 1) (Fin r))"
    using one np by (rule minusN_abs) simp
  then have m1: "finIn (- 2) 2 (minusN (Fin 1) (Fin r))" by simp
  have "finIn (- (4 * 2)) (4 * 2) (timesN (timesN (Fin 4) (Fin r)) (minusN (Fin 1) (Fin r)))"
    using f4 m1 by (rule timesN_abs) simp
  then have bf: "finIn (- 8) 8 (timesN (timesN (Fin 4) (Fin r)) (minusN (Fin 1) (Fin r)))"
    by simp
  have "finIn (- (1 + 8)) (1 + 8)
          (minusN (Fin 1) (timesN (timesN (Fin 4) (Fin r)) (minusN (Fin 1) (Fin r))))"
    using one bf by (rule minusN_abs) simp
  then have "finIn (- 9) 9
          (minusN (Fin 1) (timesN (timesN (Fin 4) (Fin r)) (minusN (Fin 1) (Fin r))))"
    by simp
  with np have "finIn (- (1 * 9)) (1 * 9)
          (timesN (Fin r) (minusN (Fin 1)
             (timesN (timesN (Fin 4) (Fin r)) (minusN (Fin 1) (Fin r)))))"
    by (rule timesN_abs) simp
  then have t1: "finIn (- 9) 9
          (timesN (Fin r) (minusN (Fin 1)
             (timesN (timesN (Fin 4) (Fin r)) (minusN (Fin 1) (Fin r)))))"
    by simp
  have "finIn (- (2 * 8)) (2 * 8)
          (timesN (plusN (Fin r) (timesN strength (sinN (timesN (Fin pi) (Fin r)))))
             (timesN (timesN (Fin 4) (Fin r)) (minusN (Fin 1) (Fin r))))"
    using sc bf by (rule timesN_abs) simp
  then have t2: "finIn (- 16) 16
          (timesN (plusN (Fin r) (timesN strength (sinN (timesN (Fin pi) (Fin r)))))
             (timesN (timesN (Fin 4) (Fin r)) (minusN (Fin 1) (Fin r))))"
    by simp
  have "finIn (- (9 + 16)) (9 + 16)
          (plusN (timesN (Fin r) (minusN (Fin 1)
                    (timesN (timesN (Fin 4) (Fin r)) (minusN (Fin 1) (Fin r)))))
             (timesN (plusN (Fin r) (timesN strength (sinN (timesN (Fin pi) (Fin r)))))
                (timesN (timesN (Fin 4) (Fin r)) (minusN (Fin 1) (Fin r)))))"
    using t1 t2 by (rule plusN_abs) simp
  then have bc: "finIn (- 25) 25
          (plusN (timesN (Fin r) (minusN (Fin 1)
                    (timesN (timesN (Fin 4) (Fin r)) (minusN (Fin 1) (Fin r)))))
             (timesN (plusN (Fin r) (timesN strength (sinN (timesN (Fin pi) (Fin r)))))
                (timesN (timesN (Fin 4) (Fin r)) (minusN (Fin 1) (Fin r)))))"
    by simp
  have "finIn (- (25 + 1)) (25 + 1)
          (minusN (plusN (timesN (Fin r) (minusN (Fin 1)
                    (timesN (timesN (Fin 4) (Fin r)) (minusN (Fin 1) (Fin r)))))
             (timesN (plusN (Fin r) (timesN strength (sinN (timesN (Fin pi) (Fin r)))))
                (timesN (timesN (Fin 4) (Fin r)) (minusN (Fin 1) (Fin r))))) (Fin r))"
    using bc np by (rule minusN_abs) simp
  then have "finIn (- 26) 26
          (minusN (plusN (timesN (Fin r) (minusN (Fin 1)
                    (timesN (timesN (Fin 4) (Fin r)) (minusN (Fin 1) (Fin r)))))
             (timesN (plusN (Fin r) (timesN strength (sinN (timesN (Fin pi) (Fin r)))))
                (timesN (timesN (Fin 4) (Fin r)) (minusN (Fin 1) (Fin r))))) (Fin r))"
    by simp
  then have "finIn (- (26 * 255)) (26 * 255)
          (timesN (minusN (plusN (timesN (Fin r) (minusN (Fin 1)
                    (timesN (timesN (Fin 4) (Fin r)) (minusN (Fin 1) (Fin r)))))
             (timesN (plusN (Fin r) (timesN strength (sinN (timesN (Fin pi) (Fin r)))))
                (timesN (timesN (Fin 4) (Fin r)) (minusN (Fin 1) (Fin r))))) (Fin r)) (Fin 255))"
    by (rule timesN_abs) (simp_all add: finIn_Fin)
  then have "finIn (- (26 * 255 * 1)) (26 * 255 * 1)
          (timesN (timesN (minusN (plusN (timesN (Fin r) (minusN (Fin 1)
                    (timesN (timesN (Fin 4) (Fin r)) (minusN (Fin 1) (Fin r)))))
             (timesN (plusN (Fin r) (timesN strength (sinN (timesN (Fin pi) (Fin r)))))
                (timesN (timesN (Fin 4) (Fin r)) (minusN (Fin 1) (Fin r))))) (Fin r)) (Fin 255))
             (Fin (1 / 10)))"
    by (rule timesN_abs) (simp_all add: finIn_Fin)
  then show ?thesis by (auto elim: finInE)
qed

lemma curveEntry_shape:
  assumes "5 \<le> N" "N \<le> 20" "i < N" "finIn (2 / 10) (8 / 10) strength"
    and "list_all widePoint pts" "real (length pts) * 2048 \<le> 2 ^ 100"
  shows "\<exists>y. curveEntry strength (Fin (real N)) pts i =
                [Fin (Math_round (real i / (real N - 1) * 255)), Fin y] \<and> 0 \<le> y \<and> y \<le> 255"
proof -
  define r where "r = real i / (real N - 1)"
  have pos: "timesN (divideN (Fin (real i)) (minusN (Fin (real N)) (Fin 1))) (Fin 255) = Fin (r * 255)"
    and np: "divideN (Fin (r * 255)) (Fin 255) = Fin r" and r: "0 \<le> r" "r \<le> 1"
    using position_exact [OF assms(1,2,3)] by (simp_all add: r_def)
  have k: "5 \<le> real N" "real N \<le> 20" using assms(1,2) by simp_all
  have p: "finIn 0 255 (Fin (r * 255))" using r by (simp add: finIn_Fin)
  obtain ws tw where acc: "accumulate (Fin (real N)) (Fin (r * 255)) pts = (Fin ws, Fin tw)"
    using accumulate_fin [OF k p assms(5,6)] by blast
  define adjustment where
    "adjustment = (if gtN (Fin tw) (Fin 0) then divideN (Fin ws) (Fin tw) else Fin 0)"
  have adj: "adjustment \<noteq> NaN"
    by (simp add: adjustment_def gtN_def rangeOf_not_NaN)
  obtain c where c:
    "timesN (timesN (minusN
                (plusN (timesN (Fin r) (minusN (Fin 1)
                          (timesN (timesN (Fin 4) (Fin r)) (minusN (Fin 1) (Fin r)))))
                   (timesN (plusN (Fin r) (timesN strength (sinN (timesN (Fin pi) (Fin r)))))
                      (timesN (timesN (Fin 4) (Fin r)) (minusN (Fin 1) (Fin r)))))
                (Fin r)) (Fin 255)) (Fin (1 / 10)) = Fin c"
    using sCurve_term_fin [OF r assms(4)] by blast
  have "plusN (Fin (r * 255)) adjustment \<noteq> NaN" using plusN_not_NaN [OF adj] by blast
  then have "plusN (plusN (Fin (r * 255)) adjustment) (Fin c) \<noteq> NaN"
    using plusN_not_NaN by blast
  then have "finIn 0 255 (Math_max (Fin 0) (Math_min (Fin 255)
                (plusN (plusN (Fin (r * 255)) adjustment) (Fin c))))"
    by (rule clamp_number) simp
  then obtain y where y: "Math_max (Fin 0) (Math_min (Fin 255)
                (plusN (plusN (Fin (r * 255)) adjustment) (Fin c))) = Fin y" "0 \<le> y" "y \<le> 255"
    by (rule finInE)
  have "curveEntry strength (Fin (real N)) pts i = [roundN (Fin (r * 255)), roundN (Fin y)]"
    unfolding curveEntry_def Let_def
    by (simp only: pos np acc prod.case adjustment_def [symmetric] c y(1))
  then have "curveEntry strength (Fin (real N)) pts i =
               [Fin (Math_round (r * 255)), Fin (Math_round y)]"
    by simp
  then show ?thesis using Math_round_clamped [OF y(2,3)] by (simp add: r_def)
qed

text \<open>
  C3 (as amended). For every non-empty list of fewer than \<open>2^32\<close> tone points whose
  inputs lie between 0 and 255, whose outputs lie between -255 and 510 and whose weights
  lie between 0 and 1, the curve returned by \<open>smoothToneCurve\<close> has between 5 and 20
  entries, its input values are finite and strictly increasing, its first entry is
  \<open>[0, y0]\<close> and its last entry is \<open>[255, y1]\<close> with \<open>y0\<close> and \<open>y1\<close> between 0 and 255,
  and every entry is a pair of finite numbers whose output value lies between 0 and 255.
\<close>

theorem smoothToneCurve_shape:
  assumes "points \<noteq> []" "length points < 2 ^ 32" "list_all boundedPoint points"
  shows "5 \<le> length (smoothToneCurve points) \<and> length (smoothToneCurve points) \<le> 20 \<and>
         inputsIncrease (smoothToneCurve points) \<and>
         (\<exists>y0. hd (smoothToneCurve points) = [Fin 0, Fin y0] \<and> 0 \<le> y0 \<and> y0 \<le> 255) \<and>
         (\<exists>y1. last (smoothToneCurve points) = [Fin 255, Fin y1] \<and> 0 \<le> y1 \<and> y1 \<le> 255) \<and>
         list_all entryInRange (smoothToneCurve points)"
proof -
  obtain k :: int where k: "5 \<le> k" "k \<le> 20" "numPoints points = Fin (of_int k)"
    using numPoints_int [OF assms(1,3,2)] by blast
  define N where "N = nat k"
  have N: "5 \<le> N" "N \<le> 20" "numPoints points = Fin (real N)"
    using k by (simp_all add: N_def)
  have lc: "loopCount (numPoints points) = N" by (simp add: N(3))
  define f where "f = curveEntry (sCurveStrength points) (numPoints points) (allPoints points)"
  have c: "smoothToneCurve points = map f [0 ..< N]"
    by (simp add: smoothToneCurve_def f_def lc)
  have st: "finIn (2 / 10) (8 / 10) (sCurveStrength points)"
    using assms(1,3,2) by (rule sCurveStrength_fin)
  have wide: "list_all widePoint (allPoints points)"
    and le: "length (allPoints points) \<le> 2 * length points"
    using allPoints_wide [OF assms(3)] by simp_all
  have "real (length (allPoints points)) \<le> real (2 * length points)"
    using le by (simp only: of_nat_le_iff)
  then have "real (length (allPoints points)) * 2048 \<le> 2 * (real (length points) * 2048)"
    by simp
  also have "\<dots> \<le> 2 * 2 ^ 50" using length_bound [OF assms(2)] by simp
  also have "\<dots> \<le> 2 ^ 100" by simp
  finally have lb: "real (length (allPoints points)) * 2048 \<le> 2 ^ 100" .
  have entry: "\<exists>y. f i = [Fin (Math_round ((real i / (real N - 1)) * 255)), Fin y] \<and> 0 \<le> y \<and> y \<le> 255"
    if "i < N" for i
    unfolding f_def N(3) using N(1,2) that st wide lb by (rule curveEntry_shape)
  have len: "length (smoothToneCurve points) = N" by (simp add: c)
  have first: "f i ! 0 = Fin (Math_round ((real i / (real N - 1)) * 255))" if "i < N" for i
    using entry [OF that] by auto
  have fin: "list_all (\<lambda>e. case elemAt e 0 of Some (Fin x) \<Rightarrow> True | _ \<Rightarrow> False)
               (smoothToneCurve points)"
    unfolding c list_all_iff
  proof
    fix e
    assume "e \<in> set (map f [0 ..< N])"
    then obtain i where i: "i < N" "e = f i" by auto
    then show "case elemAt e 0 of Some (Fin x) \<Rightarrow> True | _ \<Rightarrow> False"
      using entry [OF i(1)] by (auto simp: elemAt_def)
  qed
  have srt: "sorted_wrt (\<lambda>e f. ltN (e ! 0) (f ! 0)) (smoothToneCurve points)"
    unfolding sorted_wrt_iff_nth_less
  proof (intro allI impI)
    fix i j
    assume ij: "i < j" and j: "j < length (smoothToneCurve points)"
    have jN: "j < N" and iN: "i < N" using ij j len by simp_all
    have "Math_round ((real i / (real N - 1)) * 255) < Math_round ((real j / (real N - 1)) * 255)"
      by (rule Math_round_strict) (rule position_step [OF N(1,2) ij])
    then show "ltN (smoothToneCurve points ! i ! 0) (smoothToneCurve points ! j ! 0)"
      using iN jN by (simp add: c first)
  qed
  have r0: "Math_round 0 = 0" by (simp add: Math_round_def)
  have "hd (smoothToneCurve points) = f 0"
    using N(1) by (simp add: c hd_map upt_conv_Cons)
  moreover have "0 < N" using N(1) by simp
  ultimately have h: "\<exists>y0. hd (smoothToneCurve points) = [Fin 0, Fin y0] \<and> 0 \<le> y0 \<and> y0 \<le> 255"
    using entry [of 0] by (simp add: r0)
  have r255: "Math_round 255 = 255" by (simp add: Math_round_def)
  have "real (N - 1) = real N - 1" using N(1) by (simp add: of_nat_diff)
  then have p: "(real (N - 1) / (real N - 1)) * 255 = 255" using N(1) by simp
  have lN: "N - 1 < N" using N(1) by simp
  have "last (smoothToneCurve points) = f (N - 1)"
    using N(1) by (simp add: c last_map)
  moreover obtain y where "f (N - 1) = [Fin (Math_round ((real (N - 1) / (real N - 1)) * 255)), Fin y]"
      and "0 \<le> y" "y \<le> 255"
    using entry [OF lN] by blast
  ultimately have la: "\<exists>y1. last (smoothToneCurve points) = [Fin 255, Fin y1] \<and> 0 \<le> y1 \<and> y1 \<le> 255"
    unfolding p r255 by simp
  have al: "list_all entryInRange (smoothToneCurve points)"
    unfolding c list_all_iff
  proof
    fix e
    assume "e \<in> set (map f [0 ..< N])"
    then obtain i where i: "i < N" "e = f i" by auto
    then show "entryInRange e" using entry [OF i(1)] by (auto simp: entryInRange_def)
  qed
  show ?thesis using N(1,2) len fin srt h la al by (simp add: inputsIncrease_def)
qed

text \<open>
  The two anchor points that the analysis always produces form such a list.
\<close>

theorem smoothToneCurve_shape_witness:
  "anchorPoints \<noteq> [] \<and> length anchorPoints < 2 ^ 32 \<and> list_all boundedPoint anchorPoints \<and>
   5 \<le> length (smoothToneCurve anchorPoints) \<and> length (smoothToneCurve anchorPoints) \<le> 20 \<and>
   inputsIncrease (smoothToneCurve anchorPoints) \<and>
   (\<exists>y0. hd (smoothToneCurve anchorPoints) = [Fin 0, Fin y0] \<and> 0 \<le> y0 \<and> y0 \<le> 255) \<and>
   (\<exists>y1. last (smoothToneCurve anchorPoints) = [Fin 255, Fin y1] \<and> 0 \<le> y1 \<and> y1 \<le> 255) \<and>
   list_all entryInRange (smoothToneCurve anchorPoints)"
proof -
  have ne: "anchorPoints \<noteq> []" by (simp add: anchorPoints_def)
  have len: "length anchorPoints < 2 ^ 32" by (simp add: anchorPoints_def)
  have b: "list_all boundedPoint anchorPoints"
    by (simp add: anchorPoints_def boundedPoint_def finIn_def)
  show ?thesis using ne len b smoothToneCurve_shape [OF ne len b] by blast
qed

section \<open>A tone curve whose sums leave the range of doubles\<close>

lemma hugeOutput_range:
  "1 \<le> hugeOutput" "hugeOutput < 2 ^ 1024 - 2 ^ 970" "2 ^ 1024 - 2 ^ 970 \<le> hugeOutput * 2"
proof -
  have a: "(2::real) ^ 970 < 2 ^ 1023" by (rule power_strict_increasing) simp_all
  have b: "(2::real) ^ 1024 = 2 * 2 ^ 1023" by simp
  have c: "(0::real) \<le> 2 ^ 970" by simp
  show "1 \<le> hugeOutput" unfolding hugeOutput_def by (rule one_le_power) simp
  show "hugeOutput < 2 ^ 1024 - 2 ^ 970" unfolding hugeOutput_def b using a by linarith
  show "2 ^ 1024 - 2 ^ 970 \<le> hugeOutput * 2" unfolding hugeOutput_def b using c by linarith
qed

lemma huge_terms:
  "timesN (minusN (Fin hugeOutput) (Fin 0)) (Fin 2) = PosInf"
  "timesN (minusN (Fin (- hugeOutput)) (Fin 0)) (Fin 2) = NegInf"
proof -
  note h = hugeOutput_range
  have n1: "\<not> 2 ^ 1024 - 2 ^ 970 \<le> hugeOutput" using h(2) by (simp only: not_le)
  have n2: "\<not> hugeOutput \<le> - (2 ^ 1024 - 2 ^ 970)" using h(1,2) by linarith
  have n3: "\<not> 2 ^ 1024 - 2 ^ 970 \<le> - hugeOutput" using h(1,2) by linarith
  have n4: "\<not> - hugeOutput \<le> - (2 ^ 1024 - 2 ^ 970)" using h(2) by linarith
  have o1: "overflow hugeOutput = Fin hugeOutput"
    unfolding overflow_def by (simp only: n1 n2 if_False)
  have o2: "overflow (- hugeOutput) = Fin (- hugeOutput)"
    unfolding overflow_def by (simp only: n3 n4 if_False)
  have m1: "minusN (Fin hugeOutput) (Fin 0) = Fin hugeOutput"
    by (simp add: minusN_def o1)
  have m2: "minusN (Fin (- hugeOutput)) (Fin 0) = Fin (- hugeOutput)"
    by (simp add: minusN_def o2)
  have u1: "underflow (hugeOutput * 2) = hugeOutput * 2"
    using h(1) by (intro underflow_exact) simp
  have u2: "underflow (- hugeOutput * 2) = - hugeOutput * 2"
    using h(1) by (intro underflow_exact) simp
  have p1: "overflow (hugeOutput * 2) = PosInf"
    unfolding overflow_def using h(3) by (simp only: if_True)
  have n5: "\<not> 2 ^ 1024 - 2 ^ 970 \<le> - hugeOutput * 2" using h(1,2) by linarith
  have n6: "- hugeOutput * 2 \<le> - (2 ^ 1024 - 2 ^ 970)" using h(3) by linarith
  have p2: "overflow (- hugeOutput * 2) = NegInf"
    unfolding overflow_def by (simp only: n5 n6 if_False if_True)
  show "timesN (minusN (Fin hugeOutput) (Fin 0)) (Fin 2) = PosInf"
    by (simp only: m1 timesN.simps rangeOf_def u1 p1)
  show "timesN (minusN (Fin (- hugeOutput)) (Fin 0)) (Fin 2) = NegInf"
    by (simp only: m2 timesN.simps rangeOf_def u2 p2)
qed

lemma small_numbers:
  "overflow 0 = Fin 0" "overflow 2 = Fin 2" "overflow 4 = Fin 4" "overflow 20 = Fin 20"
  "overflow 128 = Fin 128" "overflow (- 128) = Fin (- 128)"
  "rangeOf 1 = Fin 1" "rangeOf 2 = Fin 2" "rangeOf 4 = Fin 4" "rangeOf 8 = Fin 8"
  "rangeOf 15 = Fin 15" "rangeOf 128 = Fin 128"
  by (simp_all add: overflow_small rangeOf_exact)

lemma numPoints_overflowPoints: "numPoints overflowPoints = Fin 20"
proof -
  have r: "Math_round 20 = 20" by (simp add: Math_round_def)
  show ?thesis
    by (simp add: numPoints_def overflowPoints_def Let_def gtN_def small_numbers Math_min_def
        Math_max_def r)
qed

lemma allPoints_overflowPoints:
  "allPoints overflowPoints =
     overflowPoints @ [overflowShoulder hugeOutput, overflowShoulder (- hugeOutput)]"
proof -
  have s: "shoulderPoint \<lparr>tp_input = Fin 0, tp_output = Fin y, tp_weight = Fin 2\<rparr> =
             [overflowShoulder y]" for y
    by (simp add: shoulderPoint_def Let_def overflowShoulder_def small_numbers)
  have n: "notAfter p q"
    if "tp_input p = Fin 0 \<or> tp_input p = Fin 128" "tp_input q = tp_input p \<or> tp_input q = Fin 128"
    for p q
    using that by (auto simp: notAfter_def minusN_def small_numbers)
  have i: "tp_input (overflowShoulder y) = Fin 128" for y by (simp add: overflowShoulder_def)
  show ?thesis
    by (simp add: allPoints_def overflowPoints_def s sortByInput_def n i)
qed

lemma foldl_NaN: "foldl (\<lambda>s p. plusN s (g p)) NaN ps = NaN"
  by (induction ps) simp_all

lemma accumulate_overflowPoints:
  "\<exists>tw. 0 < tw \<and> accumulate (Fin 20) (Fin 0) (allPoints overflowPoints) = (NaN, Fin tw)"
proof -
  define wt where "wt = (\<lambda>point. timesN (tp_weight point) (influence (Fin 20) (Fin 0) point))"
  have i0: "influence (Fin 20) (Fin 0) \<lparr>tp_input = Fin 0, tp_output = y, tp_weight = Fin 2\<rparr> = Fin 1"
    for y
    by (rule influence_same) (simp_all add: finIn_Fin)
  have w0: "wt \<lparr>tp_input = Fin 0, tp_output = y, tp_weight = Fin 2\<rparr> = Fin 2" for y
    by (simp add: wt_def i0 small_numbers)
  have ws: "finIn 0 1 (wt (overflowShoulder y))" for y
  proof -
    have "finIn 0 1 (influence (Fin 20) (Fin 0) (overflowShoulder y))"
      by (rule influence_fin) (simp_all add: finIn_Fin overflowShoulder_def)
    then have "finIn 0 (1 * 1) (timesN (Fin 1) (influence (Fin 20) (Fin 0) (overflowShoulder y)))"
      by (intro timesN_nonneg) (simp_all add: finIn_Fin)
    then show ?thesis by (simp add: wt_def overflowShoulder_def)
  qed
  obtain a where a: "wt (overflowShoulder hugeOutput) = Fin a" "0 \<le> a" "a \<le> 1"
    using ws [of hugeOutput] by (rule finInE)
  obtain b where b: "wt (overflowShoulder (- hugeOutput)) = Fin b" "0 \<le> b" "b \<le> 1"
    using ws [of "- hugeOutput"] by (rule finInE)
  have s1: "overflow (4 + a) = Fin (4 + a)" using a(2,3) by (intro overflow_small) simp
  have s2: "overflow (4 + a + b) = Fin (4 + a + b)"
    using a(2,3) b(2,3) by (intro overflow_small) simp
  have tw: "foldl (\<lambda>s point. plusN s (wt point)) (Fin 0) (allPoints overflowPoints) =
              Fin (4 + a + b)"
    unfolding allPoints_overflowPoints
    by (simp add: overflowPoints_def w0 a(1) b(1) small_numbers s1 s2)
  have "foldl (\<lambda>s point. plusN s (timesN (minusN (tp_output point) (tp_input point)) (wt point)))
          (Fin 0) (allPoints overflowPoints) = NaN"
    unfolding allPoints_overflowPoints
    by (simp add: overflowPoints_def w0 huge_terms foldl_NaN del: timesN.simps)
  then have "accumulate (Fin 20) (Fin 0) (allPoints overflowPoints) = (NaN, Fin (4 + a + b))"
    unfolding accumulate_def accumulate_split using tw by (simp add: wt_def)
  moreover have "0 < 4 + a + b" using a(2) b(2) by simp
  ultimately show ?thesis by blast
qed

lemma curveEntry_overflowPoints:
  "curveEntry s (Fin 20) (allPoints overflowPoints) 0 = [Fin 0, NaN]"
proof -
  obtain tw where tw: "0 < tw"
    "accumulate (Fin 20) (Fin 0) (allPoints overflowPoints) = (NaN, Fin tw)"
    using accumulate_overflowPoints by blast
  have "timesN (divideN (Fin (real 0)) (minusN (Fin (real 20)) (Fin 1))) (Fin 255) =
          Fin (real 0 / (real 20 - 1) * 255)"
    using position_exact [of 20 0] by simp
  then have pos: "timesN (divideN (Fin (real 0)) (minusN (Fin 20) (Fin 1))) (Fin 255) = Fin 0"
    by simp
  have adj: "(if gtN (Fin tw) (Fin 0) then divideN NaN (Fin tw) else Fin 0) = NaN"
    using tw(1) by (simp add: gtN_def)
  have nan: "plusN (plusN (Fin 0) NaN) v = NaN" "Math_min (Fin 255) NaN = NaN"
    "Math_max (Fin 0) NaN = NaN" "roundN NaN = NaN" "roundN (Fin 0) = Fin 0" for v
    by (simp_all add: Math_min_def Math_max_def Math_round_def)
  show ?thesis
    unfolding curveEntry_def Let_def by (simp only: pos tw(2) prod.case adj nan)
qed

text \<open>
  C3 fails on two tone points at input 0 with weight 2 and the outputs \<open>2^1023\<close> and
  \<open>-2^1023\<close>: at position 0 the weighted sum adds plus infinity and minus infinity, which
  is \<open>NaN\<close>, and the first entry of the curve is \<open>[0, NaN]\<close>.
\<close>

theorem smoothToneCurve_counterexample:
  "overflowPoints \<noteq> [] \<and>
   smoothToneCurve overflowPoints \<noteq> [] \<and>
   hd (smoothToneCurve overflowPoints) = [Fin 0, NaN] \<and>
   \<not> list_all entryInRange (smoothToneCurve overflowPoints)"
proof -
  have ne: "overflowPoints \<noteq> []" by (simp add: overflowPoints_def)
  have c: "smoothToneCurve overflowPoints =
             map (curveEntry (sCurveStrength overflowPoints) (Fin 20) (allPoints overflowPoints))
               [0 ..< 20]"
    by (simp add: smoothToneCurve_def numPoints_overflowPoints)
  have u: "[0 ..< 20] = 0 # [1 ..< 20]" by (simp add: upt_conv_Cons)
  have h: "hd (smoothToneCurve overflowPoints) = [Fin 0, NaN]"
    unfolding c u by (simp add: curveEntry_overflowPoints)
  have n: "smoothToneCurve overflowPoints \<noteq> []" unfolding c u by simp
  have "\<not> entryInRange (hd (smoothToneCurve overflowPoints))"
    by (simp add: h entryInRange_def)
  then have "\<not> list_all entryInRange (smoothToneCurve overflowPoints)"
    using n by (cases "smoothToneCurve overflowPoints") simp_all
  then show ?thesis using ne n h by simp
qed


section \<open>The pixel loop of the hue analysis\<close>

lemma pixelStep_pixels:
  "fst (pixelStep rng channelData (pixels, histogram) i) =
     pixels @ filter (\<lambda>lab. inRange rng (labHue lab)) (pixelAt channelData i)"
proof -
  obtain c0 c1 c2 where ch: "channelData = (c0, c1, c2)" by (cases channelData) auto
  show ?thesis
    by (simp add: pixelStep_def pixelAt_def ch Let_def split: option.splits)
qed

lemma foldl_pixelStep_pixels:
  "fst (foldl (pixelStep rng channelData) st xs) =
     fst st @ filter (\<lambda>lab. inRange rng (labHue lab)) (concat (map (pixelAt channelData) xs))"
proof (induction xs arbitrary: st)
  case Nil
  then show ?case by simp
next
  case (Cons i xs)
  obtain pixels histogram where st: "st = (pixels, histogram)" by (cases st) auto
  show ?case
    unfolding foldl_Cons Cons.IH st pixelStep_pixels by simp
qed

lemma scanPixels_pixels:
  "fst (scanPixels rng channelData) =
     filter (\<lambda>lab. inRange rng (labHue lab)) (pixelLabs channelData)"
  by (simp add: scanPixels_def foldl_pixelStep_pixels pixelLabs_def)

lemma foldl_pixelStep_unchanged:
  "fst (foldl (pixelStep rng channelData) st xs) = fst st \<Longrightarrow>
   foldl (pixelStep rng channelData) st xs = st"
proof (induction xs arbitrary: st)
  case Nil
  then show ?case by simp
next
  case (Cons i xs)
  obtain pixels histogram where st: "st = (pixels, histogram)" by (cases st) auto
  have grow: "fst (foldl (pixelStep rng channelData) (pixelStep rng channelData st i) xs) =
      fst (pixelStep rng channelData st i) @
        filter (\<lambda>lab. inRange rng (labHue lab)) (concat (map (pixelAt channelData) xs))"
    by (rule foldl_pixelStep_pixels)
  have same: "fst (pixelStep rng channelData st i) = fst st"
    using Cons.prems grow unfolding foldl_Cons st pixelStep_pixels by simp
  then have nomatch: "filter (\<lambda>lab. inRange rng (labHue lab)) (pixelAt channelData i) = []"
    unfolding st pixelStep_pixels by simp
  obtain c0 c1 c2 where ch: "channelData = (c0, c1, c2)" by (cases channelData) auto
  have step: "pixelStep rng channelData st i = st"
    using nomatch by (auto simp: pixelStep_def pixelAt_def ch st Let_def split: option.splits)
  show ?case
    using Cons.IH [of st] Cons.prems by (simp add: step)
qed

lemma scanPixels_no_match:
  assumes "list_all (\<lambda>hue. \<not> inRange rng hue) (pixelHues channelData)"
  shows "scanPixels rng channelData = ([], emptyHistogram)"
proof -
  have "filter (\<lambda>lab. inRange rng (labHue lab)) (pixelLabs channelData) = []"
    using assms by (simp add: pixelHues_def list_all_iff filter_empty_conv)
  then have "fst (foldl (pixelStep rng channelData) ([], emptyHistogram)
                   [0 ..< length (fst channelData)]) = fst ([]::LabColor list, emptyHistogram)"
    using scanPixels_pixels [of rng channelData] by (simp add: scanPixels_def)
  then show ?thesis
    unfolding scanPixels_def by (rule foldl_pixelStep_unchanged)
qed

text \<open>
  C2. When the decoding fails or no pixel has its hue inside the range,
  \<open>analyzeColorDistribution\<close> returns the distribution with weight 0, no peaks and the
  mean \<open>{l: 0, a: 0, b: 0}\<close>, over the untouched histogram of 360 zeros. The result is
  \<open>Some\<close>: no division by zero has taken place.
\<close>

theorem analyzeColorDistribution_empty_match:
  assumes "noPixelInRange buffer rng"
  shows "analyzeColorDistribution buffer rng =
           Some \<lparr>cd_mean = \<lparr>lab_l = 0, lab_a = 0, lab_b = 0\<rparr>, cd_peaks = [],
                 cd_histogram = replicate 360 (Some 0), cd_weight = 0\<rparr>"
proof (cases buffer)
  case None
  then show ?thesis
    by (simp add: analyzeColorDistribution_def zeroDistribution_def emptyHistogram_def)
next
  case (Some channelData)
  then have "list_all (\<lambda>hue. \<not> inRange rng hue) (pixelHues channelData)"
    using assms by (simp add: noPixelInRange_def)
  then have "scanPixels rng channelData = ([], emptyHistogram)"
    by (rule scanPixels_no_match)
  then show ?thesis
    using Some by (simp add: analyzeColorDistribution_def zeroDistribution_def emptyHistogram_def)
qed

text \<open>A black pixel has hue 180, outside the red band.\<close>

lemma rgbToLab_black: "rgbToLab 0 0 0 = \<lparr>lab_l = 0, lab_a = 0, lab_b = 0\<rparr>"
  by (simp add: rgbToLab_def srgbToLinear_def labF_def)

lemma blackPixel_labs: "pixelLabs ([0], [0], [0]) = [\<lparr>lab_l = 0, lab_a = 0, lab_b = 0\<rparr>]"
  by (simp add: pixelLabs_def pixelAt_def elemAt_def rgbToLab_black)

lemma black_hue: "labHue \<lparr>lab_l = 0, lab_a = 0, lab_b = 0\<rparr> = 180"
  by (simp add: labHue_def hueFromLab_def atan2_def)


theorem analyzeColorDistribution_empty_match_witness:
  "noPixelInRange blackPixel (COLOR_RANGES red) \<and>
   analyzeColorDistribution blackPixel (COLOR_RANGES red) =
     Some \<lparr>cd_mean = \<lparr>lab_l = 0, lab_a = 0, lab_b = 0\<rparr>, cd_peaks = [],
           cd_histogram = replicate 360 (Some 0), cd_weight = 0\<rparr>"
proof -
  have h: "noPixelInRange blackPixel (COLOR_RANGES red)"
    by (simp add: noPixelInRange_def blackPixel_def pixelHues_def blackPixel_labs black_hue
          inRange_def COLOR_RANGES_def)
  show ?thesis
    using h analyzeColorDistribution_empty_match [OF h] by simp
qed

section \<open>Lightness of converted pixels and means of colours\<close>

lemma srgbToLinear_unit:
  assumes "0 \<le> c" "c \<le> 1"
  shows "0 \<le> srgbToLinear c \<and> srgbToLinear c \<le> 1"
proof (cases "c > 0.04045")
  case True
  have "0 \<le> (c + 0.055) / 1.055" "(c + 0.055) / 1.055 \<le> 1" using assms by simp_all
  then have "((c + 0.055) / 1.055) powr 2.4 \<le> 1 powr 2.4"
    by (intro powr_mono2) simp_all
  then show ?thesis using True by (simp add: srgbToLinear_def)
next
  case False
  then show ?thesis using assms by (simp add: srgbToLinear_def)
qed

lemma labF_range:
  assumes "0 \<le> t" "t \<le> 1"
  shows "16 / 116 \<le> labF t \<and> labF t \<le> 1"
proof (cases "t > 0.008856")
  case True
  have c: "((4 / 29) ^ 3 :: real) \<le> t" using True by (simp add: power3_eq_cube)
  have "((4 / 29 :: real) ^ 3) powr (1 / 3) = ((4 / 29) powr 3) powr (1 / 3)"
    by simp
  also have "\<dots> = (4 / 29 :: real) powr (3 * (1 / 3))" by (rule powr_powr)
  also have "\<dots> = 4 / 29" by simp
  finally have root: "((4 / 29 :: real) ^ 3) powr (1 / 3) = 4 / 29" .
  have "((4 / 29 :: real) ^ 3) powr (1 / 3) \<le> t powr (1 / 3)"
    by (rule powr_mono2) (use c in simp_all)
  then have lo: "4 / 29 \<le> t powr (1 / 3)" unfolding root .
  have "t powr (1 / 3) \<le> 1 powr (1 / 3)"
    by (rule powr_mono2) (use assms in simp_all)
  then have hi: "t powr (1 / 3) \<le> 1" by simp
  show ?thesis using True lo hi by (simp add: labF_def)
next
  case False
  then have "t \<le> 0.008856" by simp
  then show ?thesis using assms(1) False by (simp add: labF_def)
qed

lemma rgbToLab_l_range:
  assumes "0 \<le> rv" "rv \<le> 255" "0 \<le> gv" "gv \<le> 255" "0 \<le> bv" "bv \<le> 255"
  shows "0 \<le> lab_l (rgbToLab rv gv bv) \<and> lab_l (rgbToLab rv gv bv) \<le> 100"
proof -
  define rr where "rr = srgbToLinear (rv / 255)"
  define gg where "gg = srgbToLinear (gv / 255)"
  define bb where "bb = srgbToLinear (bv / 255)"
  have r: "0 \<le> rr" "rr \<le> 1" using srgbToLinear_unit [of "rv / 255"] assms by (simp_all add: rr_def)
  have g: "0 \<le> gg" "gg \<le> 1" using srgbToLinear_unit [of "gv / 255"] assms by (simp_all add: gg_def)
  have b: "0 \<le> bb" "bb \<le> 1" using srgbToLinear_unit [of "bv / 255"] assms by (simp_all add: bb_def)
  define yyy where "yyy = (rr * 0.2126 + gg * 0.7152 + bb * 0.0722) * 100 / 100.0"
  have y: "0 \<le> yyy" "yyy \<le> 1" using r g b by (simp_all add: yyy_def)
  have "lab_l (rgbToLab rv gv bv) = 116 * labF yyy - 16"
    by (simp add: rgbToLab_def Let_def yyy_def rr_def gg_def bb_def)
  then show ?thesis using labF_range [OF y] by simp
qed

lemma byte_range:
  fixes w :: "8 word"
  shows "0 \<le> real (unat w)" and "real (unat w) \<le> 255"
proof -
  show "0 \<le> real (unat w)" by (rule of_nat_0_le_iff)
  have "unat w < 2 ^ 8" using unsigned_less [of w] by simp
  then have "unat w \<le> 255" by simp
  then have "real (unat w) \<le> real 255" by (rule of_nat_mono)
  also have "real 255 = 255" by simp
  finally show "real (unat w) \<le> 255" .
qed

lemma pixelLabs_l_range:
  assumes "lab \<in> set (pixelLabs channelData)"
  shows "0 \<le> lab_l lab \<and> lab_l lab \<le> 100"
proof -
  obtain c0 c1 c2 where ch: "channelData = (c0, c1, c2)" by (cases channelData) auto
  from assms obtain i where "lab \<in> set (pixelAt channelData i)"
    by (auto simp: pixelLabs_def)
  then obtain rv gv bv :: "8 word"
    where lab: "lab = rgbToLab (real (unat rv)) (real (unat gv)) (real (unat bv))"
    by (auto simp: pixelAt_def ch split: option.splits)
  show ?thesis
    unfolding lab
    by (rule rgbToLab_l_range) (rule byte_range)+
qed

lemma foldl_lab_field:
  assumes "labField f"
  shows "f (foldl (\<lambda>acc lab. \<lparr>lab_l = lab_l acc + lab_l lab,
                                lab_a = lab_a acc + lab_a lab,
                                lab_b = lab_b acc + lab_b lab\<rparr>) acc labs) =
         f acc + sum_list (map f labs)"
proof (induction labs arbitrary: acc)
  case Nil
  then show ?case by simp
next
  case (Cons x xs)
  show ?case
    unfolding foldl_Cons Cons.IH using assms by (auto simp: labField_def)
qed

lemma labSum_field: "labField f \<Longrightarrow> f (labSum labs) = sum_list (map f labs)"
  unfolding labSum_def by (subst foldl_lab_field) (auto simp: labField_def)

lemma labDivide_field:
  assumes "n \<noteq> 0"
  shows "\<exists>m. labDivide s n = Some m \<and> (\<forall>f. labField f \<longrightarrow> f m = f s / real n)"
  using assms by (auto simp: labDivide_def jsdiv_def labField_def)

lemma sum_list_between:
  fixes f :: "'a \<Rightarrow> real"
  assumes "\<And>x. x \<in> set xs \<Longrightarrow> lo \<le> f x \<and> f x \<le> hi"
  shows "real (length xs) * lo \<le> sum_list (map f xs) \<and> sum_list (map f xs) \<le> real (length xs) * hi"
  using assms
proof (induction xs)
  case Nil
  then show ?case by simp
next
  case (Cons x xs)
  have "lo \<le> f x" "f x \<le> hi" using Cons.prems by simp_all
  moreover have "real (length xs) * lo \<le> sum_list (map f xs)"
    "sum_list (map f xs) \<le> real (length xs) * hi"
    using Cons.IH Cons.prems by simp_all
  ultimately show ?case by (simp add: algebra_simps)
qed

lemma labMean_between:
  assumes f: "labField f" and ne: "labs \<noteq> []"
    and b: "\<And>x. x \<in> set labs \<Longrightarrow> lo \<le> f x \<and> f x \<le> hi"
  shows "\<exists>m. labDivide (labSum labs) (length labs) = Some m \<and> lo \<le> f m \<and> f m \<le> hi"
proof -
  have n: "length labs \<noteq> 0" "0 < real (length labs)" using ne by simp_all
  obtain m where m: "labDivide (labSum labs) (length labs) = Some m"
      and fm: "\<forall>g. labField g \<longrightarrow> g m = g (labSum labs) / real (length labs)"
    using labDivide_field [OF n(1)] by blast
  have eq: "f m = sum_list (map f labs) / real (length labs)"
    using fm f by (simp add: labSum_field)
  have s: "real (length labs) * lo \<le> sum_list (map f labs)"
    "sum_list (map f labs) \<le> real (length labs) * hi"
    using sum_list_between [of labs lo f hi] b by simp_all
  have "lo \<le> sum_list (map f labs) / real (length labs)"
    using s(1) n(2) by (simp add: pos_le_divide_eq mult.commute)
  moreover have "sum_list (map f labs) / real (length labs) \<le> hi"
    using s(2) n(2) by (simp add: pos_divide_le_eq mult.commute)
  ultimately show ?thesis using m eq by simp
qed

lemma peakColor_between:
  assumes f: "labField f"
    and b: "\<And>x. x \<in> set pixels \<Longrightarrow> lo \<le> f x \<and> f x \<le> hi"
    and mn: "lo \<le> f mean \<and> f mean \<le> hi"
  shows "\<exists>c. peakColor pixels mean peak = Some c \<and> lo \<le> f c \<and> f c \<le> hi"
proof -
  define peakPixels where "peakPixels =
     filter (\<lambda>lab. case pk_width peak of
                             None \<Rightarrow> False
                           | Some w \<Rightarrow> \<bar>labHue lab - pk_position peak\<bar> < w / 2) pixels"
  have pc: "peakColor pixels mean peak =
      (if length peakPixels = 0 then Some mean
       else labDivide (labSum peakPixels) (length peakPixels))"
    by (simp add: peakColor_def peakPixels_def Let_def)
  show ?thesis
  proof (cases "peakPixels = []")
    case True
    then show ?thesis using mn pc by simp
  next
    case False
    have "\<And>x. x \<in> set peakPixels \<Longrightarrow> lo \<le> f x \<and> f x \<le> hi"
      using b by (simp add: peakPixels_def)
    from labMean_between [OF f False this] show ?thesis using False pc by simp
  qed
qed

lemma those_map_Some:
  assumes "\<And>x. x \<in> set xs \<Longrightarrow> \<exists>y. g x = Some y \<and> P y"
  shows "\<exists>ys. those (map g xs) = Some ys \<and> (\<forall>y \<in> set ys. P y)"
  using assms
proof (induction xs)
  case Nil
  then show ?case by simp
next
  case (Cons x xs)
  obtain y where y: "g x = Some y" "P y" using Cons.prems by auto
  obtain ys where ys: "those (map g xs) = Some ys" "\<forall>y \<in> set ys. P y"
    using Cons.IH Cons.prems by auto
  show ?case using y ys by simp
qed

section \<open>Peak heights and the distribution of a band\<close>

lemma height_fraction:
  fixes c M :: real
  assumes "c \<le> M" "c > M * 0.01"
  shows "0 \<le> c / M \<and> c / M \<le> 1"
proof -
  have M: "0 < M"
  proof (rule ccontr)
    assume "\<not> 0 < M"
    then have "M \<le> M * 0.01" by simp
    then show False using assms by simp
  qed
  then have "0 < M * 0.01" by simp
  then have "0 < c" using assms(2) by linarith
  then show ?thesis using M assms(1) by simp
qed

lemma nth_le_Max: "i < length (h :: real list) \<Longrightarrow> h ! i \<le> Max (set h)"
  by simp

lemma localMaximumPeak_height:
  assumes "i < length histogram" and "p \<in> set (localMaximumPeak histogram (Max (set histogram)) i)"
  shows "0 \<le> pk_height p \<and> pk_height p \<le> 1"
proof -
  have c: "histogram ! i \<le> Max (set histogram)" using assms(1) by (rule nth_le_Max)
  have "histogram ! i > Max (set histogram) * 0.01 \<and> pk_height p = histogram ! i / Max (set histogram)"
    using assms(2)
    by (auto simp: localMaximumPeak_def Let_def split: if_splits prod.splits)
  then show ?thesis using height_fraction [OF c] by simp
qed

lemma derivativePeak_height:
  assumes "i < length histogram" and "p \<in> set (derivativePeak histogram (Max (set histogram)) m s i)"
  shows "0 \<le> pk_height p \<and> pk_height p \<le> 1"
proof -
  have c: "histogram ! i \<le> Max (set histogram)" using assms(1) by (rule nth_le_Max)
  have "histogram ! i > Max (set histogram) * 0.01 \<and> pk_height p = histogram ! i / Max (set histogram)"
    using assms(2)
    by (auto simp: derivativePeak_def Let_def split: if_splits)
  then show ?thesis using height_fraction [OF c] by simp
qed

lemma findHistogramPeaks_height:
  assumes "findHistogramPeaks histogram mean stdev = Inr pks" and "p \<in> set pks"
  shows "0 \<le> pk_height p \<and> pk_height p \<le> 1"
proof (cases "\<exists>m s. mean = Some m \<and> stdev = Some s")
  case True
  then obtain m s where ms: "mean = Some m" "stdev = Some s" by blast
  from assms obtain i where i: "i < length histogram - 1"
      and p: "p \<in> set (derivativePeak histogram (Max (set histogram)) m s i)"
    by (auto simp: findHistogramPeaks_def ms split: if_splits)
  from i have "i < length histogram" by simp
  then show ?thesis using p by (rule derivativePeak_height)
next
  case False
  then have "findHistogramPeaks histogram mean stdev =
      (if histogram = [] then Inr []
       else Inr (concat (map (localMaximumPeak histogram (Max (set histogram)))
                              [1 ..< length histogram - 1])))"
    by (auto simp: findHistogramPeaks_def split: option.splits)
  with assms obtain i where i: "i < length histogram - 1"
      and p: "p \<in> set (localMaximumPeak histogram (Max (set histogram)) i)"
    by (auto split: if_splits)
  from i have "i < length histogram" by simp
  then show ?thesis using p by (rule localMaximumPeak_height)
qed

lemma findHistogramPeaks_fallback: "\<exists>pks. findHistogramPeaks histogram None None = Inr pks"
  by (simp add: findHistogramPeaks_def)

lemma length_concat_pixelAt: "length (concat (map (pixelAt channelData) xs)) \<le> length xs"
proof (induction xs)
  case Nil
  then show ?case by simp
next
  case (Cons i xs)
  obtain c0 c1 c2 where ch: "channelData = (c0, c1, c2)" by (cases channelData) auto
  have "length (pixelAt channelData i) \<le> 1"
    by (simp add: pixelAt_def ch split: option.splits)
  then show ?case using Cons.IH by simp
qed

lemma length_pixelLabs: "length (pixelLabs channelData) \<le> length (fst channelData)"
  using length_concat_pixelAt [of channelData "[0 ..< length (fst channelData)]"]
  by (simp add: pixelLabs_def)

lemma analyzeColorDistribution_match:
  assumes f: "labField f"
    and b: "\<And>lab. lab \<in> set (pixelLabs channelData) \<Longrightarrow> lo \<le> f lab \<and> f lab \<le> hi"
    and ne: "filter (\<lambda>lab. inRange rng (labHue lab)) (pixelLabs channelData) \<noteq> []"
  shows "\<exists>d. analyzeColorDistribution (Some channelData) rng = Some d \<and>
           cd_weight d = real (length (filter (\<lambda>lab. inRange rng (labHue lab)) (pixelLabs channelData)))
                          / real (length (fst channelData)) \<and>
           0 < cd_weight d \<and> cd_weight d \<le> 1 \<and>
           (\<forall>lab \<in> set (cd_mean d # cd_peaks d). lo \<le> f lab \<and> f lab \<le> hi)"
proof -
  define pixels where "pixels = filter (\<lambda>lab. inRange rng (labHue lab)) (pixelLabs channelData)"
  obtain histogram where scan: "scanPixels rng channelData = (pixels, histogram)"
    using scanPixels_pixels [of rng channelData]
    by (cases "scanPixels rng channelData") (simp add: pixels_def)
  have pne: "pixels \<noteq> []" using ne by (simp add: pixels_def)
  have pb: "\<And>x. x \<in> set pixels \<Longrightarrow> lo \<le> f x \<and> f x \<le> hi"
    using b by (simp add: pixels_def)
  obtain mean where mean: "labDivide (labSum pixels) (length pixels) = Some mean"
      and mb: "lo \<le> f mean \<and> f mean \<le> hi"
    using labMean_between [OF f pne pb] by blast
  obtain hp where hp: "findHistogramPeaks (smoothArray histogram) None None = Inr hp"
    using findHistogramPeaks_fallback by blast
  have "\<And>pk. pk \<in> set hp \<Longrightarrow> \<exists>c. peakColor pixels mean pk = Some c \<and> (lo \<le> f c \<and> f c \<le> hi)"
    using peakColor_between [OF f pb mb] by blast
  then obtain peaks where peaks: "those (map (peakColor pixels mean) hp) = Some peaks"
      and pkb: "\<forall>c \<in> set peaks. lo \<le> f c \<and> f c \<le> hi"
    using those_map_Some [of hp "peakColor pixels mean" "\<lambda>c. lo \<le> f c \<and> f c \<le> hi"] by blast
  have len: "length pixels \<le> length (fst channelData)"
    using length_pixelLabs [of channelData] length_filter_le [of _ "pixelLabs channelData"]
    unfolding pixels_def by (rule_tac order_trans) auto
  have pos: "0 < length pixels" using pne by simp
  have n0: "0 < length (fst channelData)" using pos len by linarith
  define w where "w = real (length pixels) / real (length (fst channelData))"
  have jd: "jsdiv (real (length pixels)) (real (length (fst channelData))) = Some w"
    using n0 by (simp add: jsdiv_def w_def)
  have rp: "0 < real (length pixels)" "0 < real (length (fst channelData))"
    "real (length pixels) \<le> real (length (fst channelData))"
    using pos n0 len by simp_all
  have wb: "0 < w" "w \<le> 1"
    unfolding w_def using rp by (simp_all del: of_nat_0_less_iff length_greater_0_conv of_nat_le_iff)
  have res: "analyzeColorDistribution (Some channelData) rng =
      Some \<lparr>cd_mean = mean, cd_peaks = peaks, cd_histogram = histogram, cd_weight = w\<rparr>"
    using pne by (simp add: analyzeColorDistribution_def scan mean hp peaks jd)
  have "\<exists>d. analyzeColorDistribution (Some channelData) rng = Some d \<and>
           cd_weight d = real (length pixels) / real (length (fst channelData)) \<and>
           0 < cd_weight d \<and> cd_weight d \<le> 1 \<and>
           (\<forall>lab \<in> set (cd_mean d # cd_peaks d). lo \<le> f lab \<and> f lab \<le> hi)"
    unfolding res using wb mb pkb w_def by simp
  then show ?thesis by (simp only: pixels_def)
qed

lemma analyzeColorDistribution_lightness:
  "\<exists>d. analyzeColorDistribution buffer rng = Some d \<and> 0 \<le> cd_weight d \<and> cd_weight d \<le> 1 \<and>
       (\<forall>lab \<in> set (cd_mean d # cd_peaks d). 0 \<le> lab_l lab \<and> lab_l lab \<le> 100)"
proof (cases buffer)
  case None
  then show ?thesis by (simp add: analyzeColorDistribution_def zeroDistribution_def)
next
  case (Some channelData)
  show ?thesis
  proof (cases "filter (\<lambda>lab. inRange rng (labHue lab)) (pixelLabs channelData) = []")
    case True
    then have "fst (scanPixels rng channelData) = []" by (simp add: scanPixels_pixels)
    then obtain histogram where "scanPixels rng channelData = ([], histogram)"
      by (cases "scanPixels rng channelData") simp
    then show ?thesis
      using Some by (simp add: analyzeColorDistribution_def zeroDistribution_def)
  next
    case False
    have f: "labField lab_l" by (simp add: labField_def)
    have b: "\<And>lab. lab \<in> set (pixelLabs channelData) \<Longrightarrow> 0 \<le> lab_l lab \<and> lab_l lab \<le> 100"
      by (rule pixelLabs_l_range)
    from analyzeColorDistribution_match [of lab_l channelData 0 100 rng, OF f b False]
    show ?thesis using Some by auto
  qed
qed

lemma hueTermWeight_unit: "0 \<le> hueTermWeight lab \<and> hueTermWeight lab \<le> 1"
  by (simp add: hueTermWeight_def chroma_def)

lemma luminanceWeight_unit:
  assumes "0 \<le> lab_l lab" "lab_l lab \<le> 100"
  shows "0 \<le> luminanceWeight lab \<and> luminanceWeight lab \<le> 1"
proof -
  have "\<bar>lab_l lab - 50\<bar> \<le> 50" using assms by (simp add: abs_le_iff)
  then show ?thesis by (simp add: luminanceWeight_def)
qed

lemma satTermWeight_unit:
  assumes "0 \<le> lab_l lab" "lab_l lab \<le> 100" "0 \<le> cd_weight d" "cd_weight d \<le> 1"
  shows "0 \<le> satTermWeight d lab \<and> satTermWeight d lab \<le> 1"
proof -
  have l: "0 \<le> luminanceWeight lab" "luminanceWeight lab \<le> 1"
    using luminanceWeight_unit [OF assms(1,2)] by simp_all
  have "luminanceWeight lab * cd_weight d \<le> 1 * 1"
    using l assms(3,4) by (intro mult_mono) simp_all
  then show ?thesis using l(1) assms(3) by (simp add: satTermWeight_def)
qed

text \<open>
  C5. Every weight and height fraction of the analysis lies between 0 and 1: the height of
  every peak that \<open>findHistogramPeaks\<close> returns, in both of its modes; the weight of
  the distribution that \<open>analyzeColorDistribution\<close> returns; and, for the mean and every
  peak colour of that distribution, the weight of its term in \<open>calculateColorHue\<close>, the
  luminance weight \<open>1 - |L - 50| / 50\<close>, and the weight of its term in
  \<open>calculateColorSaturation\<close>. The luminance weight is not clamped: it stays in range
  because the lightness of a colour converted from 8-bit channels, and so of every mean of
  such colours, lies between 0 and 100.
\<close>

theorem weights_in_unit_interval:
  "(findHistogramPeaks histogram mean stdev = Inr pks \<longrightarrow>
      list_all (\<lambda>p. 0 \<le> pk_height p \<and> pk_height p \<le> 1) pks) \<and>
   (\<exists>d. analyzeColorDistribution buffer rng = Some d \<and> 0 \<le> cd_weight d \<and> cd_weight d \<le> 1 \<and>
      list_all (\<lambda>lab. 0 \<le> hueTermWeight lab \<and> hueTermWeight lab \<le> 1 \<and>
                        0 \<le> luminanceWeight lab \<and> luminanceWeight lab \<le> 1 \<and>
                        0 \<le> satTermWeight d lab \<and> satTermWeight d lab \<le> 1)
        (cd_mean d # cd_peaks d))"
proof (intro conjI impI)
  assume "findHistogramPeaks histogram mean stdev = Inr pks"
  then show "list_all (\<lambda>p. 0 \<le> pk_height p \<and> pk_height p \<le> 1) pks"
    unfolding list_all_iff using findHistogramPeaks_height by blast
next
  obtain d where d: "analyzeColorDistribution buffer rng = Some d"
      and w: "0 \<le> cd_weight d" "cd_weight d \<le> 1"
      and l: "\<forall>lab \<in> set (cd_mean d # cd_peaks d). 0 \<le> lab_l lab \<and> lab_l lab \<le> 100"
    using analyzeColorDistribution_lightness [of buffer rng] by blast
  have "0 \<le> hueTermWeight lab \<and> hueTermWeight lab \<le> 1 \<and>
        0 \<le> luminanceWeight lab \<and> luminanceWeight lab \<le> 1 \<and>
        0 \<le> satTermWeight d lab \<and> satTermWeight d lab \<le> 1"
    if "lab \<in> set (cd_mean d # cd_peaks d)" for lab
  proof -
    have r: "0 \<le> lab_l lab" "lab_l lab \<le> 100" using l that by blast+
    show ?thesis
      using hueTermWeight_unit [of lab] luminanceWeight_unit [OF r] satTermWeight_unit [OF r w]
      by simp
  qed
  then have "list_all (\<lambda>lab. 0 \<le> hueTermWeight lab \<and> hueTermWeight lab \<le> 1 \<and>
                        0 \<le> luminanceWeight lab \<and> luminanceWeight lab \<le> 1 \<and>
                        0 \<le> satTermWeight d lab \<and> satTermWeight d lab \<le> 1)
        (cd_mean d # cd_peaks d)"
    unfolding list_all_iff by blast
  then show "\<exists>d. analyzeColorDistribution buffer rng = Some d \<and> 0 \<le> cd_weight d \<and> cd_weight d \<le> 1 \<and>
      list_all (\<lambda>lab. 0 \<le> hueTermWeight lab \<and> hueTermWeight lab \<le> 1 \<and>
                        0 \<le> luminanceWeight lab \<and> luminanceWeight lab \<le> 1 \<and>
                        0 \<le> satTermWeight d lab \<and> satTermWeight d lab \<le> 1)
        (cd_mean d # cd_peaks d)"
    using d w by blast
qed

text \<open>The histogram \<open>[0, 1, 0]\<close> has one peak, of height 1.\<close>

lemma single_peak:
  "findHistogramPeaks [0, 1, 0] None None =
     Inr [\<lparr>pk_position = 1, pk_height = 1, pk_width = Some 0\<rparr>]"
proof -
  have u: "[Suc 0 ..< 2] = [1]" "[0 ..< 3] = [0, 1, 2]"
    by (simp_all add: upt_rec)
  have m: "Max (set [0, 1, 0 :: real]) = 1" by simp
  have "localMaximumPeak [0, 1, 0] 1 1 = [\<lparr>pk_position = 1, pk_height = 1, pk_width = Some 0\<rparr>]"
    by (simp add: localMaximumPeak_def Let_def u Math_sqrt_def)
  then show ?thesis
    unfolding findHistogramPeaks_def m by (simp add: u)
qed


theorem weights_in_unit_interval_witness:
  "findHistogramPeaks [0, 1, 0] None None =
     Inr [\<lparr>pk_position = 1, pk_height = 1, pk_width = Some 0\<rparr>] \<and>
   list_all (\<lambda>p. 0 \<le> pk_height p \<and> pk_height p \<le> 1)
     [\<lparr>pk_position = 1, pk_height = 1, pk_width = Some 0\<rparr>]"
  using weights_in_unit_interval [of "[0, 1, 0]" None None
      "[\<lparr>pk_position = 1, pk_height = 1, pk_width = Some 0\<rparr>]"] single_peak
  by blast

section \<open>Neutral colour adjustments\<close>

text \<open>
  C7. For every colour band and buffer the analysis returns a distribution, and both
  \<open>calculateColorHue\<close> and \<open>calculateColorSaturation\<close> return 0 when its weight is 0;
  each also returns 0 when its own total weight over the mean and all peaks is 0.
\<close>

theorem calculateColor_zero:
  "\<exists>d. analyzeColorDistribution buffer (COLOR_RANGES color) = Some d \<and>
     (cd_weight d = 0 \<longrightarrow>
        calculateColorHue color buffer = Some 0 \<and> calculateColorSaturation color buffer = Some 0) \<and>
     (snd (hueTotals (COLOR_RANGES color) d) = 0 \<longrightarrow> calculateColorHue color buffer = Some 0) \<and>
     (snd (satTotals d) = 0 \<longrightarrow> calculateColorSaturation color buffer = Some 0)"
proof -
  obtain d where d: "analyzeColorDistribution buffer (COLOR_RANGES color) = Some d"
    using analyzeColorDistribution_lightness [of buffer "COLOR_RANGES color"] by blast
  have "cd_weight d = 0 \<longrightarrow>
        calculateColorHue color buffer = Some 0 \<and> calculateColorSaturation color buffer = Some 0"
    by (simp add: calculateColorHue_def calculateColorSaturation_def d)
  moreover have "snd (hueTotals (COLOR_RANGES color) d) = 0 \<longrightarrow> calculateColorHue color buffer = Some 0"
    by (simp add: calculateColorHue_def d split: prod.splits)
  moreover have "snd (satTotals d) = 0 \<longrightarrow> calculateColorSaturation color buffer = Some 0"
    by (simp add: calculateColorSaturation_def d split: prod.splits)
  ultimately show ?thesis using d by blast
qed

lemma foldl_totals_snd:
  fixes g h :: "'a \<Rightarrow> real"
  shows "snd (foldl (\<lambda>(totalAdjustment, totalWeight) lab. (totalAdjustment + g lab, totalWeight + h lab))
          (a0, w0) labs) = w0 + sum_list (map h labs)"
  by (induction labs arbitrary: a0 w0) (simp_all add: add.assoc)

lemma hueTotals_weight:
  "snd (hueTotals colorRange d) = sum_list (map hueTermWeight (cd_mean d # cd_peaks d))"
  unfolding hueTotals_def by (subst foldl_totals_snd) simp

lemma satTotals_weight:
  "snd (satTotals d) = sum_list (map (satTermWeight d) (cd_mean d # cd_peaks d))"
  unfolding satTotals_def Let_def by (subst foldl_totals_snd) simp

lemma sum_list_zero: "(\<And>x. x \<in> set xs \<Longrightarrow> h x = (0::real)) \<Longrightarrow> sum_list (map h xs) = 0"
  by (induction xs) simp_all

lemma black_in_aqua:
  "\<exists>d. analyzeColorDistribution blackPixel (COLOR_RANGES aqua) = Some d \<and> cd_weight d = 1 \<and>
     snd (hueTotals (COLOR_RANGES aqua) d) = 0 \<and> snd (satTotals d) = 0"
proof -
  let ?ch = "([0], [0], [0]) :: 8 word list \<times> 8 word list \<times> 8 word list"
  let ?rng = "COLOR_RANGES aqua"
  have mt: "filter (\<lambda>lab. inRange ?rng (labHue lab)) (pixelLabs ?ch) =
      [\<lparr>lab_l = 0, lab_a = 0, lab_b = 0\<rparr>]"
    by (simp add: blackPixel_labs black_hue inRange_def COLOR_RANGES_def)
  then have ne: "filter (\<lambda>lab. inRange ?rng (labHue lab)) (pixelLabs ?ch) \<noteq> []" by simp
  have z: "\<And>lab. lab \<in> set (pixelLabs ?ch) \<Longrightarrow> 0 \<le> f lab \<and> f lab \<le> 0" if "labField f" for f
    using that by (auto simp: blackPixel_labs labField_def)
  have fl: "labField lab_l" and fa: "labField lab_a" and fb: "labField lab_b"
    by (simp_all add: labField_def)
  obtain d where d: "analyzeColorDistribution (Some ?ch) ?rng = Some d"
      and w: "cd_weight d = real (length (filter (\<lambda>lab. inRange ?rng (labHue lab)) (pixelLabs ?ch)))
                          / real (length (fst ?ch))"
      and l: "\<forall>lab \<in> set (cd_mean d # cd_peaks d). 0 \<le> lab_l lab \<and> lab_l lab \<le> 0"
    using analyzeColorDistribution_match [of lab_l ?ch 0 0 ?rng, OF fl z [OF fl] ne] by blast
  have a: "\<forall>lab \<in> set (cd_mean d # cd_peaks d). 0 \<le> lab_a lab \<and> lab_a lab \<le> 0"
    using analyzeColorDistribution_match [of lab_a ?ch 0 0 ?rng, OF fa z [OF fa] ne] d by auto
  have b: "\<forall>lab \<in> set (cd_mean d # cd_peaks d). 0 \<le> lab_b lab \<and> lab_b lab \<le> 0"
    using analyzeColorDistribution_match [of lab_b ?ch 0 0 ?rng, OF fb z [OF fb] ne] d by auto
  have w1: "cd_weight d = 1" unfolding w mt by simp
  have "hueTermWeight lab = 0" if "lab \<in> set (cd_mean d # cd_peaks d)" for lab
  proof -
    have "lab_a lab = 0" "lab_b lab = 0" using a b that by fastforce+
    then show ?thesis by (simp add: hueTermWeight_def chroma_def)
  qed
  then have h0: "snd (hueTotals ?rng d) = 0"
    unfolding hueTotals_weight by (rule sum_list_zero)
  have "satTermWeight d lab = 0" if "lab \<in> set (cd_mean d # cd_peaks d)" for lab
  proof -
    have "lab_l lab = 0" using l that by fastforce
    then show ?thesis by (simp add: satTermWeight_def luminanceWeight_def)
  qed
  then have s0: "snd (satTotals d) = 0"
    unfolding satTotals_weight by (rule sum_list_zero)
  show ?thesis using d w1 h0 s0 by (auto simp: blackPixel_def)
qed

text \<open>
  A black pixel is outside the red band, so the weight is 0 there; it is inside the aqua
  band, where the weight is 1 and both total weights are 0.
\<close>

theorem calculateColor_zero_witness:
  "analyzeColorDistribution blackPixel (COLOR_RANGES red) = Some (zeroDistribution emptyHistogram) \<and>
   cd_weight (zeroDistribution emptyHistogram) = 0 \<and>
   calculateColorHue red blackPixel = Some 0 \<and> calculateColorSaturation red blackPixel = Some 0 \<and>
   (\<exists>d. analyzeColorDistribution blackPixel (COLOR_RANGES aqua) = Some d \<and> cd_weight d = 1 \<and>
      snd (hueTotals (COLOR_RANGES aqua) d) = 0 \<and> snd (satTotals d) = 0) \<and>
   calculateColorHue aqua blackPixel = Some 0 \<and> calculateColorSaturation aqua blackPixel = Some 0"
proof -
  have n: "noPixelInRange blackPixel (COLOR_RANGES red)"
    by (simp add: noPixelInRange_def blackPixel_def pixelHues_def blackPixel_labs black_hue
          inRange_def COLOR_RANGES_def)
  then have "scanPixels (COLOR_RANGES red) ([0], [0], [0]) = ([], emptyHistogram)"
    by (intro scanPixels_no_match) (simp add: noPixelInRange_def blackPixel_def)
  then have r: "analyzeColorDistribution blackPixel (COLOR_RANGES red) = Some (zeroDistribution emptyHistogram)"
    by (simp add: analyzeColorDistribution_def blackPixel_def)
  have z: "cd_weight (zeroDistribution emptyHistogram) = 0" by (simp add: zeroDistribution_def)
  have red0: "calculateColorHue red blackPixel = Some 0 \<and> calculateColorSaturation red blackPixel = Some 0"
    using calculateColor_zero [of blackPixel red] r z by auto
  have aqua0: "calculateColorHue aqua blackPixel = Some 0 \<and> calculateColorSaturation aqua blackPixel = Some 0"
    using calculateColor_zero [of blackPixel aqua] black_in_aqua by auto
  show ?thesis using r z red0 black_in_aqua aqua0 by blast
qed

section \<open>A mean colour on the negative a axis\<close>

lemma pixelLabs_zip:
  assumes "length c1 = length c0" "length c2 = length c0"
  shows "pixelLabs (c0, c1, c2) =
           map (\<lambda>(rv, gv, bv). rgbToLab (real (unat rv)) (real (unat gv)) (real (unat bv)))
             (zip c0 (zip c1 c2))"
proof -
  define f where "f = (\<lambda>i. rgbToLab (real (unat (c0 ! i))) (real (unat (c1 ! i))) (real (unat (c2 ! i))))"
  have one: "pixelAt (c0, c1, c2) i = [f i]" if "i < length c0" for i
    using that assms by (simp add: pixelAt_def elemAt_def f_def)
  have "concat (map (pixelAt (c0, c1, c2)) xs) = map f xs" if "list_all (\<lambda>i. i < length c0) xs" for xs
    using that by (induction xs) (simp_all add: one)
  then have "pixelLabs (c0, c1, c2) = map f [0 ..< length c0]"
    by (simp add: pixelLabs_def list_all_iff)
  also have "\<dots> = map (\<lambda>(rv, gv, bv). rgbToLab (real (unat rv)) (real (unat gv)) (real (unat bv)))
                     (zip c0 (zip c1 c2))"
    using assms by (intro nth_equalityI) (simp_all add: f_def)
  finally show ?thesis .
qed

lemma arctan_quarter: "arctan (1 / 4) \<le> pi / 12"
proof -
  have "2 * arctan (1 / 4) = arctan ((2 * (1 / 4)) / (1 - (1 / 4)\<^sup>2))"
    by (rule arctan_double) simp
  then have d: "2 * arctan (1 / 4) = arctan (8 / 15)" by (simp add: power2_eq_square)
  have "sqrt 3 \<le> 15 / 8" by (rule real_le_lsqrt) (simp_all add: power2_eq_square)
  then have "8 / 15 \<le> 1 / sqrt 3" by (simp add: field_simps)
  then have "arctan (8 / 15) \<le> arctan (1 / sqrt 3)" by (simp only: arctan_le_iff)
  also have "\<dots> = arctan (tan (pi / 6))" by (simp only: tan_30)
  also have "\<dots> = pi / 6" by (rule arctan_tan) (use pi_gt_zero in linarith)+
  finally show ?thesis using d by linarith
qed

lemma hue_near_wrap:
  assumes "a < 0" "\<bar>b\<bar> * 4 \<le> - a"
  shows "inRange (COLOR_RANGES red) (hueFromLab (Num a) (Num b))"
proof -
  have r: "inRange (COLOR_RANGES red) h \<longleftrightarrow> 345 \<le> h \<or> h \<le> 15" for h
    by (simp add: inRange_def COLOR_RANGES_def)
  consider "b = 0" | "0 < b" | "b < 0" by linarith
  then show ?thesis
  proof cases
    case 1
    then have "hueFromLab (Num a) (Num b) = 360"
      using assms(1) by (simp add: hueFromLab_def atan2_def)
    then show ?thesis by (simp add: r)
  next
    case 2
    have q: "- (1 / 4) \<le> b / a" using assms 2 by (simp add: le_divide_eq)
    have "arctan (- (1 / 4)) \<le> arctan (b / a)" using q by (simp only: arctan_le_iff)
    then have lo: "- (pi / 12) \<le> arctan (b / a)"
      using arctan_quarter by (simp add: arctan_minus)
    have "atan2 (Num b) (Num a) = arctan (b / a) + pi"
      using assms(1) 2 by (simp add: atan2_def)
    then have h: "hueFromLab (Num a) (Num b) = arctan (b / a) * 180 / pi + 360"
      by (simp add: hueFromLab_def field_simps)
    have "- 15 * pi \<le> arctan (b / a) * 180" using lo by linarith
    then have "- 15 \<le> arctan (b / a) * 180 / pi"
      using pi_gt_zero by (simp add: le_divide_eq)
    then show ?thesis unfolding r h by linarith
  next
    case 3
    have q: "b / a \<le> 1 / 4" using assms 3 by (simp add: divide_le_eq)
    have "arctan (b / a) \<le> arctan (1 / 4)" using q by (simp only: arctan_le_iff)
    then have hi: "arctan (b / a) \<le> pi / 12" using arctan_quarter by linarith
    have "atan2 (Num b) (Num a) = arctan (b / a) - pi"
      using assms(1) 3 by (simp add: atan2_def)
    then have h: "hueFromLab (Num a) (Num b) = arctan (b / a) * 180 / pi"
      by (simp add: hueFromLab_def field_simps)
    have "arctan (b / a) * 180 \<le> 15 * pi" using hi by linarith
    then have "arctan (b / a) * 180 / pi \<le> 15"
      using pi_gt_zero by (simp add: divide_le_eq)
    then show ?thesis unfolding r h by linarith
  qed
qed

lemma dark_pixel:
  assumes "rv \<le> 10" "gv \<le> 10" "bv \<le> 10" "0 \<le> rv" "0 \<le> gv" "0 \<le> bv"
  shows "rgbToLab rv gv bv =
     \<lparr>lab_l = 116 * (7.787 * (((rv / 255 / 12.92) * 0.2126 + (gv / 255 / 12.92) * 0.7152 +
                                (bv / 255 / 12.92) * 0.0722) * 100 / 100.0) + 16 / 116) - 16,
      lab_a = 500 * ((7.787 * (((rv / 255 / 12.92) * 0.4124 + (gv / 255 / 12.92) * 0.3576 +
                                (bv / 255 / 12.92) * 0.1805) * 100 / 95.047) + 16 / 116) -
                     (7.787 * (((rv / 255 / 12.92) * 0.2126 + (gv / 255 / 12.92) * 0.7152 +
                                (bv / 255 / 12.92) * 0.0722) * 100 / 100.0) + 16 / 116)),
      lab_b = 200 * ((7.787 * (((rv / 255 / 12.92) * 0.2126 + (gv / 255 / 12.92) * 0.7152 +
                                (bv / 255 / 12.92) * 0.0722) * 100 / 100.0) + 16 / 116) -
                     (7.787 * (((rv / 255 / 12.92) * 0.0193 + (gv / 255 / 12.92) * 0.1192 +
                                (bv / 255 / 12.92) * 0.9505) * 100 / 108.883) + 16 / 116))\<rparr>"
proof -
  have lin: "srgbToLinear (c / 255) = c / 255 / 12.92" if "c \<le> 10" for c
    using that by (simp add: srgbToLinear_def)
  define rr gg bb where "rr = rv / 255 / 12.92" and "gg = gv / 255 / 12.92" and "bb = bv / 255 / 12.92"
  have nn: "0 \<le> rr" "0 \<le> gg" "0 \<le> bb" using assms by (simp_all add: rr_def gg_def bb_def)
  have up: "rr \<le> 4 / 1000" "gg \<le> 4 / 1000" "bb \<le> 4 / 1000"
    using assms by (simp_all add: rr_def gg_def bb_def)
  have x: "\<not> (rr * 0.4124 + gg * 0.3576 + bb * 0.1805) * 100 / 95.047 > 0.008856"
    using nn up by simp
  have y: "\<not> (rr * 0.2126 + gg * 0.7152 + bb * 0.0722) * 100 / 100.0 > 0.008856"
    using nn up by simp
  have z: "\<not> (rr * 0.0193 + gg * 0.1192 + bb * 0.9505) * 100 / 108.883 > 0.008856"
    using nn up by simp
  show ?thesis
    unfolding rgbToLab_def Let_def lin [OF assms(1)] lin [OF assms(2)] lin [OF assms(3)]
      rr_def [symmetric] gg_def [symmetric] bb_def [symmetric] labF_def
    by (simp only: x y z if_False)
qed

lemma analyzeColorDistribution_mean:
  assumes ne: "filter (\<lambda>lab. inRange rng (labHue lab)) (pixelLabs channelData) \<noteq> []"
    and mean: "labDivide (labSum (filter (\<lambda>lab. inRange rng (labHue lab)) (pixelLabs channelData)))
                 (length (filter (\<lambda>lab. inRange rng (labHue lab)) (pixelLabs channelData))) =
               Some mean"
  shows "\<exists>d. analyzeColorDistribution (Some channelData) rng = Some d \<and> cd_mean d = mean \<and>
              cd_weight d \<noteq> 0"
proof -
  define pixels where "pixels = filter (\<lambda>lab. inRange rng (labHue lab)) (pixelLabs channelData)"
  obtain histogram where scan: "scanPixels rng channelData = (pixels, histogram)"
    using scanPixels_pixels [of rng channelData]
    by (cases "scanPixels rng channelData") (simp add: pixels_def)
  have pne: "pixels \<noteq> []" using ne by (simp add: pixels_def)
  have m: "labDivide (labSum pixels) (length pixels) = Some mean"
    using mean by (simp add: pixels_def)
  obtain hp where hp: "findHistogramPeaks (smoothArray histogram) None None = Inr hp"
    using findHistogramPeaks_fallback by blast
  have l: "labField lab_l" by (simp add: labField_def)
  have b: "\<And>lab. lab \<in> set (pixelLabs channelData) \<Longrightarrow> 0 \<le> lab_l lab \<and> lab_l lab \<le> 100"
    by (rule pixelLabs_l_range)
  obtain d where d: "analyzeColorDistribution (Some channelData) rng = Some d" "0 < cd_weight d"
    using analyzeColorDistribution_match [of lab_l channelData 0 100 rng, OF l b ne] by blast
  have "cd_mean d = mean"
    using d(1) pne
    by (auto simp: analyzeColorDistribution_def scan m hp split: option.splits)
  then show ?thesis using d by auto
qed

lemma cancelling_colours:
  "lab_a (rgbToLab 2 10 8) < 0 \<and> \<bar>lab_b (rgbToLab 2 10 8)\<bar> * 4 \<le> - lab_a (rgbToLab 2 10 8)"
  "lab_a (rgbToLab 1 10 9) < 0 \<and> \<bar>lab_b (rgbToLab 1 10 9)\<bar> * 4 \<le> - lab_a (rgbToLab 1 10 9)"
  "lab_a (rgbToLab 3 7 6) < 0 \<and> \<bar>lab_b (rgbToLab 3 7 6)\<bar> * 4 \<le> - lab_a (rgbToLab 3 7 6)"
  "1439 * lab_b (rgbToLab 2 10 8) + 109 * lab_b (rgbToLab 1 10 9) + 924 * lab_b (rgbToLab 3 7 6) +
     647 * lab_b (rgbToLab 2 10 8) = 0"
  by (simp_all add: dark_pixel)

lemma cancelling_labs:
  "pixelLabs (replicate 1439 2 @ replicate 109 1 @ replicate 924 3 @ replicate 647 2,
              replicate 1439 10 @ replicate 109 10 @ replicate 924 7 @ replicate 647 10,
              replicate 1439 8 @ replicate 109 9 @ replicate 924 6 @ replicate 647 8) =
     replicate 1439 (rgbToLab 2 10 8) @ replicate 109 (rgbToLab 1 10 9) @
     replicate 924 (rgbToLab 3 7 6) @ replicate 647 (rgbToLab 2 10 8)"
  by (subst pixelLabs_zip) simp_all

lemma cancelling_mean:
  fixes channelData
  defines "channelData \<equiv>
             (replicate 1439 (2::8 word) @ replicate 109 1 @ replicate 924 3 @ replicate 647 2,
              replicate 1439 (10::8 word) @ replicate 109 10 @ replicate 924 7 @ replicate 647 10,
              replicate 1439 (8::8 word) @ replicate 109 9 @ replicate 924 6 @ replicate 647 8)"
  shows "\<exists>d. analyzeColorDistribution (Some channelData) (COLOR_RANGES red) = Some d \<and>
              cd_weight d \<noteq> 0 \<and> lab_a (cd_mean d) < 0 \<and> lab_b (cd_mean d) = 0"
proof -
  define labs where "labs = replicate 1439 (rgbToLab 2 10 8) @ replicate 109 (rgbToLab 1 10 9) @
     replicate 924 (rgbToLab 3 7 6) @ replicate 647 (rgbToLab 2 10 8)"
  have pl: "pixelLabs channelData = labs"
    unfolding channelData_def labs_def by (rule cancelling_labs)
  have inband: "inRange (COLOR_RANGES red) (labHue lab)" if "lab \<in> set labs" for lab
  proof -
    have "lab_a lab < 0 \<and> \<bar>lab_b lab\<bar> * 4 \<le> - lab_a lab"
      using that cancelling_colours(1,2,3) by (auto simp: labs_def)
    then show ?thesis unfolding labHue_def by (intro hue_near_wrap) simp_all
  qed
  then have flt: "filter (\<lambda>lab. inRange (COLOR_RANGES red) (labHue lab)) (pixelLabs channelData) = labs"
    by (simp add: pl)
  have len: "length labs = 3119" by (simp add: labs_def)
  have ne: "labs \<noteq> []" using len by auto
  obtain m where m: "labDivide (labSum labs) (length labs) = Some m"
      and mf: "\<forall>f. labField f \<longrightarrow> f m = f (labSum labs) / real (length labs)"
    using labDivide_field [of "length labs" "labSum labs"] len by auto
  have fa: "labField lab_a" and fb: "labField lab_b" by (simp_all add: labField_def)
  have sb: "lab_b (labSum labs) = 0"
    using cancelling_colours(4) by (simp add: labSum_field [OF fb] labs_def sum_list_replicate)
  have neg: "lab_a lab < 0" if "lab \<in> set labs" for lab
    using that cancelling_colours(1,2,3) by (auto simp: labs_def)
  have "sum_list (map lab_a labs) < 0"
    using neg ne
  proof (induction labs)
    case Nil
    then show ?case by simp
  next
    case (Cons x xs)
    have x: "lab_a x < 0" using Cons.prems(1) by simp
    show ?case
    proof (cases "xs = []")
      case True
      then show ?thesis using x by simp
    next
      case False
      have "sum_list (map lab_a xs) < 0" using Cons.IH Cons.prems(1) False by simp
      then show ?thesis using x by simp
    qed
  qed
  then have sa: "lab_a (labSum labs) < 0" by (simp add: labSum_field [OF fa])
  have "lab_b m = lab_b (labSum labs) / real (length labs)" using mf fb by blast
  then have mb: "lab_b m = 0" using sb by simp
  have "lab_a m = lab_a (labSum labs) / real (length labs)" using mf fa by blast
  then have ma: "lab_a m < 0" using sa len by (simp add: divide_neg_pos)
  obtain d where "analyzeColorDistribution (Some channelData) (COLOR_RANGES red) = Some d"
      "cd_mean d = m" "cd_weight d \<noteq> 0"
    using analyzeColorDistribution_mean [of "COLOR_RANGES red" channelData m] ne m
    unfolding flt by blast
  then show ?thesis using ma mb by auto
qed

text \<open>
  C1 fails on an image of 3119 dark pixels: 1439 of colour (2, 10, 8), then 109 of colour
  (1, 10, 9), then 924 of colour (3, 7, 6), then 647 of colour (2, 10, 8). Every pixel
  has its hue in the red band, the \<open>b\<close> components add up to 0 and the mean of the
  \<open>a\<close> components is negative, so that the hue that \<open>calculateColorHue\<close> computes for
  the mean colour is 360.
\<close>

theorem hueFromLab_counterexample:
  "meanHue red cancellingPixels = Some 360 \<and>
   \<not> (0 \<le> the (meanHue red cancellingPixels) \<and> the (meanHue red cancellingPixels) < 360)"
proof -
  obtain d where d: "analyzeColorDistribution cancellingPixels (COLOR_RANGES red) = Some d"
      "cd_weight d \<noteq> 0" "lab_a (cd_mean d) < 0" "lab_b (cd_mean d) = 0"
    using cancelling_mean unfolding cancellingPixels_def by blast
  have "labHue (cd_mean d) = 360"
    using d(3) by (simp add: labHue_def d(4) hueFromLab_def atan2_negative_axis)
  then have "meanHue red cancellingPixels = Some 360"
    using d(1,2) by (simp add: meanHue_def)
  then show ?thesis by simp
qed

end
